theory Spec2Isabelle
  imports Main "HOL-Library.Word" "HOL-Library.Monad_Syntax"
begin

unbundle bit_operations_syntax

section \<open>Data model of \<open>osmem.c\<close>\<close>

text \<open>
  \<open>size_t\<close> and pointers are 64-bit machine words; arithmetic on them wraps around.
  The null pointer is the word \<open>0\<close>.
\<close>

type_synonym size_t = "64 word"
type_synonym addr = "64 word"

text \<open>
  Modelled from the spec: the status constants and \<open>struct block_meta\<close> are declared in
  \<open>helpers.h\<close>, which is not part of the sources. Section 3 of the specification gives
  them: a status is one of FREE, ALLOC and MAPPED, and the header in front of every
  payload has the fields \<open>size\<close>, \<open>status\<close> and \<open>next\<close>. The fields carry the suffix \<open>_b\<close>
  here (\<open>size\<close> is a constant of HOL, \<open>next\<close> a keyword of Isar).
\<close>

datatype status = STATUS_FREE | STATUS_ALLOC | STATUS_MAPPED

record block_meta_t =
  size_b :: size_t
  status_b :: status
  next_b :: addr

text \<open>
  The size of the header depends on the absent declaration and on the machine, so
  \<open>META_SIZE = ALIGN(sizeof(block_meta_t))\<close> is a parameter of the model, and so is the
  value of \<open>getpagesize()\<close>.
\<close>

record platform =
  META_SIZE :: size_t
  page_size :: size_t

text \<open>
  The allocator's globals (\<open>heap_start\<close>, \<open>mmap_start\<close>, \<open>threshold\<close>), the memory it
  keeps its headers in, and the part of the operating system it talks to.

  \<open>mem\<close> is the store: it maps the address of a header to the header found there. It
  holds headers only. Payload bytes are not part of the model, so \<open>memcpy\<close> and
  \<open>memset\<close>, which write payload bytes, leave the store as it is. A header that
  coalescing has taken out of the heap list stays in the store as it was written last.
\<close>

record state =
  heap_start :: addr
  mmap_start :: addr
  threshold :: size_t
  mem :: "addr \<Rightarrow> block_meta_t"
  brk :: addr
  brk_limit :: addr
  map_next :: addr

definition ALIGNMENT :: size_t where
  "ALIGNMENT = 8"

definition ALIGN :: "size_t \<Rightarrow> size_t" where
  "ALIGN n = (n + (ALIGNMENT - 1)) AND NOT (ALIGNMENT - 1)"

definition TOT_SIZE :: "platform \<Rightarrow> size_t \<Rightarrow> size_t" where
  "TOT_SIZE P n = ALIGN (n + META_SIZE P)"

definition MMAP_THRESHOLD :: size_t where
  "MMAP_THRESHOLD = 128 * 1024"

definition INITIAL_HEAP_SIZE :: size_t where
  "INITIAL_HEAP_SIZE = 128 * 1024"

text \<open>Writes to one field of the header at an address: \<open>p->size = v\<close> and so on.\<close>

definition set_size :: "state \<Rightarrow> addr \<Rightarrow> size_t \<Rightarrow> state" where
  "set_size s p v = s\<lparr>mem := (mem s)(p := (mem s p)\<lparr>size_b := v\<rparr>)\<rparr>"

definition set_status :: "state \<Rightarrow> addr \<Rightarrow> status \<Rightarrow> state" where
  "set_status s p v = s\<lparr>mem := (mem s)(p := (mem s p)\<lparr>status_b := v\<rparr>)\<rparr>"

definition set_next :: "state \<Rightarrow> addr \<Rightarrow> addr \<Rightarrow> state" where
  "set_next s p v = s\<lparr>mem := (mem s)(p := (mem s p)\<lparr>next_b := v\<rparr>)\<rparr>"

section \<open>The system calls\<close>

text \<open>
  A result of type \<open>'a option\<close> is \<open>None\<close> when the C call does not return to its
  caller: \<open>DIE\<close> has ended the process after a failed system call, or a walk over a
  list never ends. It is also \<open>None\<close> when the call leaves what the store can express:
  \<open>split_block\<close> writing a header that shares bytes with another one (see there).
\<close>

text \<open>
  Modelled from the spec: \<open>sbrk\<close> is outside the sources (section 6: program-break
  advancement, accepts a positive or zero delta, fails with a sentinel). It returns the
  old break and moves the break up by the increment; it fails when the increment, read
  as \<open>intptr_t\<close>, is negative or the new break would pass \<open>brk_limit\<close>. The failure is
  the \<open>(void *) -1\<close> on which the callers \<open>DIE\<close>.
\<close>

definition sbrk :: "state \<Rightarrow> size_t \<Rightarrow> (addr \<times> state) option" where
  "sbrk s increment =
     (if 0 \<le> sint increment \<and> unat (brk s) + unat increment \<le> unat (brk_limit s)
      then Some (brk s, s\<lparr>brk := brk s + increment\<rparr>)
      else None)"

text \<open>
  Modelled from the spec: \<open>mmap\<close> is outside the sources (section 6: anonymous private
  read-write mapping of a byte count). The kernel places the mapping at \<open>map_next\<close> and
  moves \<open>map_next\<close> past it; it fails for a length of zero and when the address space
  is used up. The failure is the \<open>MAP_FAILED\<close> on which the caller \<open>DIE\<close>s.
\<close>

definition mmap :: "state \<Rightarrow> size_t \<Rightarrow> (addr \<times> state) option" where
  "mmap s len =
     (if len \<noteq> 0 \<and> unat (map_next s) + unat len < 2 ^ 64
      then Some (map_next s, s\<lparr>map_next := map_next s + len\<rparr>)
      else None)"

text \<open>
  Modelled from the spec: \<open>munmap\<close> is outside the sources (section 6: unmapping of a
  pointer and a byte count). It gives the range back to the kernel; the allocator's
  globals and the headers of the other blocks stay as they are.
\<close>

definition munmap :: "state \<Rightarrow> addr \<Rightarrow> size_t \<Rightarrow> state" where
  "munmap s p len = s"

section \<open>The helper procedures\<close>

definition request_space :: "platform \<Rightarrow> state \<Rightarrow> addr \<Rightarrow> size_t \<Rightarrow> (addr \<times> state) option" where
  "request_space P s lastp block_size =
     (if lastp \<noteq> 0 \<and> status_b (mem s lastp) = STATUS_FREE then
        do {
          (ret, s1) \<leftarrow> sbrk s (block_size - TOT_SIZE P (size_b (mem s lastp)));
          let s2 = set_size s1 lastp
                     (size_b (mem s1 lastp) + (block_size - TOT_SIZE P (size_b (mem s1 lastp))));
          Some (lastp, s2)
        }
      else
        do {
          (block, s1) \<leftarrow> sbrk s block_size;
          let s2 = set_size s1 block (block_size - META_SIZE P);
          let s3 = set_status s2 block STATUS_FREE;
          let s4 = set_next s3 block 0;
          let s5 = (if lastp \<noteq> 0 then set_next s4 lastp block else s4);
          Some (block, s5)
        })"

definition heap_init :: "platform \<Rightarrow> state \<Rightarrow> state option" where
  "heap_init P s =
     do {
       (block, s1) \<leftarrow> request_space P s 0 INITIAL_HEAP_SIZE;
       Some (s1\<lparr>heap_start := block\<rparr>)
     }"

definition os_malloc_mmap :: "platform \<Rightarrow> state \<Rightarrow> size_t \<Rightarrow> (addr \<times> state) option" where
  "os_malloc_mmap P s sz =
     do {
       let blk_size = TOT_SIZE P sz;
       (block, s1) \<leftarrow> mmap s blk_size;
       let s2 = set_size s1 block (blk_size - META_SIZE P);
       let s3 = set_status s2 block STATUS_MAPPED;
       let s4 = set_next s3 block (mmap_start s3);
       let s5 = s4\<lparr>mmap_start := block\<rparr>;
       Some (block + META_SIZE P, s5)
     }"

definition can_coalesce_one_block :: "state \<Rightarrow> addr \<Rightarrow> bool" where
  "can_coalesce_one_block s block =
     (if status_b (mem s block) = STATUS_FREE then
        (let nxt = next_b (mem s block) in
         nxt \<noteq> 0 \<and> status_b (mem s nxt) = STATUS_FREE)
      else False)"

text \<open>The loop of \<open>find_block_in_heap\<close>, started at \<open>current = heap_start\<close>.\<close>

partial_function (option) find_block_loop :: "state \<Rightarrow> addr \<Rightarrow> addr \<Rightarrow> addr option" where
  "find_block_loop s block current =
     (if current \<noteq> 0 then
        (if current = block then Some current
         else find_block_loop s block (next_b (mem s current)))
      else Some 0)"

definition find_block_in_heap :: "state \<Rightarrow> addr \<Rightarrow> addr option" where
  "find_block_in_heap s block = find_block_loop s block (heap_start s)"

definition coalesce_one_block :: "platform \<Rightarrow> state \<Rightarrow> addr \<Rightarrow> state" where
  "coalesce_one_block P s block =
     (if can_coalesce_one_block s block then
        (let nxt = next_b (mem s block);
             s1 = set_size s block (size_b (mem s block) + TOT_SIZE P (size_b (mem s nxt)));
             s2 = set_next s1 block (next_b (mem s1 nxt))
         in s2)
      else s)"

partial_function (option) coalesce_blocks :: "platform \<Rightarrow> state \<Rightarrow> addr \<Rightarrow> state option" where
  "coalesce_blocks P s block =
     (if can_coalesce_one_block s block
      then coalesce_blocks P (coalesce_one_block P s block) block
      else Some s)"

text \<open>
  The loop of \<open>find_best_fit\<close>. The out-parameter \<open>*last\<close> (here \<open>lastp\<close>) is a local of the caller;
  the model returns it with the result: \<open>(best_fit, lastp, state)\<close>.
\<close>

partial_function (option) find_best_fit_loop ::
  "platform \<Rightarrow> size_t \<Rightarrow> state \<Rightarrow> addr \<Rightarrow> addr \<Rightarrow> addr \<Rightarrow> (addr \<times> addr \<times> state) option" where
  "find_best_fit_loop P block_size s lastp best_fit current =
     (if current \<noteq> 0 then
        do {
          s1 \<leftarrow> coalesce_blocks P s current;
          let best_fit1 =
            (if status_b (mem s1 current) = STATUS_FREE \<and>
                TOT_SIZE P (size_b (mem s1 current)) \<ge> block_size
             then (if best_fit = 0 \<or> size_b (mem s1 current) < size_b (mem s1 best_fit)
                   then current else best_fit)
             else best_fit);
          find_best_fit_loop P block_size s1 current best_fit1 (next_b (mem s1 current))
        }
      else Some (best_fit, lastp, s))"

definition find_best_fit ::
  "platform \<Rightarrow> state \<Rightarrow> addr \<Rightarrow> addr \<Rightarrow> size_t \<Rightarrow> (addr \<times> addr \<times> state) option" where
  "find_best_fit P s lastp hs block_size = find_best_fit_loop P block_size s lastp 0 hs"

definition get_block_ptr :: "platform \<Rightarrow> addr \<Rightarrow> addr" where
  "get_block_ptr P ptr = ptr - META_SIZE P"

text \<open>
  The store keeps one header for each address, and a write to the header at one address
  leaves the headers at all other addresses as they are. In memory a header takes
  \<open>META_SIZE\<close> bytes, so two headers at different addresses less than \<open>META_SIZE\<close> apart
  share bytes: a write to a field of one changes fields of the other, and which ones
  depends on the layout of \<open>struct block_meta\<close>, which the sources do not declare.
  \<open>headers_overlap\<close> holds of two such addresses (the distance is taken in the 64-bit
  address space, in both directions).
\<close>

definition headers_overlap :: "platform \<Rightarrow> addr \<Rightarrow> addr \<Rightarrow> bool" where
  "headers_overlap P a b = (a \<noteq> b \<and> (b - a < META_SIZE P \<or> a - b < META_SIZE P))"

text \<open>
  \<open>split_block\<close> writes field by field, in the order of the source: \<open>block->next\<close> is
  read after the writes to \<open>new_block\<close>, which matters when the two are the same address
  (\<open>block_size = 0\<close>). The source writes the new header wherever \<open>block + block_size\<close>
  lies. When that header would share bytes with the header of \<open>block\<close> without being the
  same header (\<open>0 < block_size < META_SIZE\<close>, or as little from the other side), the
  model has no value for what the writes leave in memory, and the result is \<open>None\<close>.
\<close>

definition split_block :: "platform \<Rightarrow> state \<Rightarrow> addr \<Rightarrow> size_t \<Rightarrow> state option" where
  "split_block P s block block_size =
     (let new_block = block + block_size in
      if headers_overlap P block new_block then None
      else
        (let s1 = set_size s new_block (size_b (mem s block) - block_size);
             s2 = set_status s1 new_block STATUS_FREE;
             s3 = set_next s2 new_block (next_b (mem s2 block));
             s4 = set_size s3 block (block_size - META_SIZE P);
             s5 = set_next s4 block new_block
         in Some s5))"

section \<open>\<open>os_malloc\<close>\<close>

definition os_malloc_sbrk :: "platform \<Rightarrow> state \<Rightarrow> size_t \<Rightarrow> (addr \<times> state) option" where
  "os_malloc_sbrk P s sz =
     do {
       s1 \<leftarrow> (if heap_start s = 0 then heap_init P s else Some s);
       let blk_size = TOT_SIZE P sz;
       (block, lastp, s2) \<leftarrow> find_best_fit P s1 (heap_start s1) (heap_start s1) blk_size;
       if block = 0 then
         do {
           (block1, s3) \<leftarrow> request_space P s2 lastp blk_size;
           let s4 = set_status s3 block1 STATUS_ALLOC;
           if block1 = 0 then Some (0, s4) else Some (block1 + META_SIZE P, s4)
         }
       else
         do {
           let s3 = set_status s2 block STATUS_ALLOC;
           s4 \<leftarrow> (if size_b (mem s3 block) > blk_size
                  then split_block P s3 block blk_size else Some s3);
           Some (block + META_SIZE P, s4)
         }
     }"

definition os_malloc :: "platform \<Rightarrow> state \<Rightarrow> size_t \<Rightarrow> (addr \<times> state) option" where
  "os_malloc P s sz =
     (if sz \<le> 0 then Some (0, s)
      else
        (let sz1 = ALIGN sz;
             blk_size = TOT_SIZE P sz1
         in if blk_size < threshold s then os_malloc_sbrk P s sz1
            else os_malloc_mmap P s sz1))"

section \<open>\<open>os_free\<close>\<close>

definition os_free_sbrk :: "platform \<Rightarrow> state \<Rightarrow> addr \<Rightarrow> state option" where
  "os_free_sbrk P s ptr =
     do {
       let block = get_block_ptr P ptr;
       found \<leftarrow> find_block_in_heap s block;
       if found = 0 then Some s
       else coalesce_blocks P (set_status s block STATUS_FREE) block
     }"

text \<open>The loop of \<open>os_free_mmap\<close>, started at \<open>prev = NULL\<close>, \<open>current = mmap_start\<close>.\<close>

partial_function (option) os_free_mmap_loop ::
  "platform \<Rightarrow> state \<Rightarrow> addr \<Rightarrow> addr \<Rightarrow> addr \<Rightarrow> state option" where
  "os_free_mmap_loop P s block prev current =
     (if current \<noteq> 0 then
        (if current = block then
           (let s1 = (if prev \<noteq> 0 then set_next s prev (next_b (mem s current))
                      else s\<lparr>mmap_start := next_b (mem s current)\<rparr>)
            in Some (munmap s1 current (TOT_SIZE P (size_b (mem s1 current)))))
         else os_free_mmap_loop P s block current (next_b (mem s current)))
      else Some s)"

definition os_free_mmap :: "platform \<Rightarrow> state \<Rightarrow> addr \<Rightarrow> state option" where
  "os_free_mmap P s ptr = os_free_mmap_loop P s (get_block_ptr P ptr) 0 (mmap_start s)"

definition os_free :: "platform \<Rightarrow> state \<Rightarrow> addr \<Rightarrow> state option" where
  "os_free P s ptr =
     (if ptr = 0 then Some s
      else
        (let block = get_block_ptr P ptr
         in if status_b (mem s block) = STATUS_MAPPED then os_free_mmap P s ptr
            else os_free_sbrk P s ptr))"

section \<open>\<open>os_calloc\<close>\<close>

text \<open>\<open>memset(ptr, 0, total_size)\<close> fills the payload and writes no header.\<close>

definition os_calloc :: "platform \<Rightarrow> state \<Rightarrow> size_t \<Rightarrow> size_t \<Rightarrow> (addr \<times> state) option" where
  "os_calloc P s nmemb sz =
     do {
       let s1 = s\<lparr>threshold := page_size P\<rparr>;
       let total_size = nmemb * sz;
       (ptr, s2) \<leftarrow> os_malloc P s1 total_size;
       let s3 = s2\<lparr>threshold := MMAP_THRESHOLD\<rparr>;
       Some (ptr, s3)
     }"

section \<open>\<open>os_realloc\<close>\<close>

text \<open>\<open>memcpy\<close> copies payload bytes and writes no header.\<close>

definition os_realloc_mmap :: "platform \<Rightarrow> state \<Rightarrow> addr \<Rightarrow> size_t \<Rightarrow> (addr \<times> state) option" where
  "os_realloc_mmap P s ptr sz =
     do {
       (new_ptr, s1) \<leftarrow> os_malloc P s sz;
       s2 \<leftarrow> os_free_mmap P s1 ptr;
       Some (new_ptr, s2)
     }"

text \<open>
  The loop of the in-place grow attempt:
  \<open>while (TOT_SIZE(block->size) < blk_size && can_coalesce_one_block(block))\<close>.
\<close>

partial_function (option) grow_loop :: "platform \<Rightarrow> state \<Rightarrow> addr \<Rightarrow> size_t \<Rightarrow> state option" where
  "grow_loop P s block blk_size =
     (if TOT_SIZE P (size_b (mem s block)) < blk_size \<and> can_coalesce_one_block s block
      then grow_loop P (coalesce_one_block P s block) block blk_size
      else Some s)"

definition os_realloc_sbrk :: "platform \<Rightarrow> state \<Rightarrow> addr \<Rightarrow> size_t \<Rightarrow> (addr \<times> state) option" where
  "os_realloc_sbrk P s ptr sz =
     do {
       let block = get_block_ptr P ptr;
       let blk_size = TOT_SIZE P sz;
       found \<leftarrow> find_block_in_heap s block;
       if found = 0 then Some (0, s)
       else if blk_size \<ge> threshold s then
         do {
           (new_ptr, s1) \<leftarrow> os_malloc_mmap P s sz;
           s2 \<leftarrow> os_free_sbrk P s1 ptr;
           Some (new_ptr, s2)
         }
       else
         do {
           let old_size = size_b (mem s block);
           s1 \<leftarrow> grow_loop P (set_status s block STATUS_FREE) block blk_size;
           let s2 = set_status s1 block STATUS_ALLOC;
           if TOT_SIZE P (size_b (mem s2 block)) \<ge> blk_size then
             do {
               s3 \<leftarrow> (if size_b (mem s2 block) > blk_size
                      then split_block P s2 block blk_size else Some s2);
               Some (ptr, s3)
             }
           else if next_b (mem s2 block) = 0 then
             do {
               let s3 = set_status s2 block STATUS_FREE;
               (new_block, lastp, s4) \<leftarrow>
                  find_best_fit P s3 (heap_start s3) (heap_start s3) blk_size;
               if new_block = 0 then
                 do {
                   let s5 = set_status s4 block STATUS_FREE;
                   (block1, s6) \<leftarrow> request_space P s5 lastp blk_size;
                   let s7 = set_status s6 block1 STATUS_ALLOC;
                   if block1 = 0 then Some (0, s7) else Some (ptr, s7)
                 }
               else
                 do {
                   let s5 = set_status s4 new_block STATUS_ALLOC;
                   let s6 = set_status s5 new_block STATUS_ALLOC;
                   s7 \<leftarrow> os_free_sbrk P s6 ptr;
                   Some (new_block + META_SIZE P, s7)
                 }
             }
           else
             do {
               s3 \<leftarrow> (if size_b (mem s2 block) \<noteq> old_size
                      then split_block P s2 block (TOT_SIZE P old_size) else Some s2);
               (new_ptr, s4) \<leftarrow> os_malloc_sbrk P s3 sz;
               s5 \<leftarrow> os_free_sbrk P s4 ptr;
               Some (new_ptr, s5)
             }
         }
     }"

definition os_realloc :: "platform \<Rightarrow> state \<Rightarrow> addr \<Rightarrow> size_t \<Rightarrow> (addr \<times> state) option" where
  "os_realloc P s ptr sz =
     (if ptr = 0 then os_malloc P s sz
      else if sz = 0 then
        do {
          s1 \<leftarrow> os_free P s ptr;
          Some (0, s1)
        }
      else
        (let sz1 = ALIGN sz;
             block = get_block_ptr P ptr
         in if status_b (mem s block) = STATUS_FREE then Some (0, s)
            else if status_b (mem s block) = STATUS_MAPPED then os_realloc_mmap P s ptr sz1
            else os_realloc_sbrk P s ptr sz1))"

section \<open>The vocabulary of the properties\<close>

text \<open>
  \<open>heap_list m a xs\<close>: walking by \<open>next\<close> from \<open>a\<close> in the store \<open>m\<close> visits the headers
  at the addresses \<open>xs\<close>, in this order, and then reaches the null pointer.
\<close>

fun heap_list :: "(addr \<Rightarrow> block_meta_t) \<Rightarrow> addr \<Rightarrow> addr list \<Rightarrow> bool" where
  "heap_list m a [] = (a = 0)"
| "heap_list m a (x # xs) = (x \<noteq> 0 \<and> a = x \<and> heap_list m (next_b (m x)) xs)"

text \<open>The first \<open>n\<close> blocks met on the walk from \<open>a\<close>: address, size and status of each.\<close>

fun first_blocks :: "nat \<Rightarrow> state \<Rightarrow> addr \<Rightarrow> (addr \<times> size_t \<times> status) list" where
  "first_blocks 0 s a = []"
| "first_blocks (Suc n) s a =
     (if a = 0 then []
      else (a, size_b (mem s a), status_b (mem s a)) # first_blocks n s (next_b (mem s a)))"

definition heap_of :: "nat \<Rightarrow> (addr \<times> state) option \<Rightarrow> (addr \<times> size_t \<times> status) list option" where
  "heap_of n r = map_option (\<lambda>(p, s). first_blocks n s (heap_start s)) r"

text \<open>No two consecutive blocks of the list are both FREE.\<close>

fun no_adjacent_free :: "(addr \<Rightarrow> block_meta_t) \<Rightarrow> addr list \<Rightarrow> bool" where
  "no_adjacent_free m (x # y # ys) =
     (\<not> (status_b (m x) = STATUS_FREE \<and> status_b (m y) = STATUS_FREE) \<and>
      no_adjacent_free m (y # ys))"
| "no_adjacent_free m [x] = True"
| "no_adjacent_free m [] = True"

text \<open>
  The blocks of the list lie one after the other without gap or overlap, and the last
  one ends at \<open>e\<close>: a block at \<open>x\<close> takes \<open>META_SIZE\<close> bytes of header and \<open>size\<close> bytes of
  payload. The sums are sums of natural numbers, so no address wraps around.
\<close>

fun contiguous :: "platform \<Rightarrow> (addr \<Rightarrow> block_meta_t) \<Rightarrow> addr list \<Rightarrow> addr \<Rightarrow> bool" where
  "contiguous P m [] e = True"
| "contiguous P m [x] e = (unat x + unat (META_SIZE P) + unat (size_b (m x)) = unat e)"
| "contiguous P m (x # y # ys) e =
     (unat x + unat (META_SIZE P) + unat (size_b (m x)) = unat y \<and> contiguous P m (y # ys) e)"

text \<open>The candidates of the best-fit search: FREE and large enough.\<close>

definition candidates :: "platform \<Rightarrow> (addr \<Rightarrow> block_meta_t) \<Rightarrow> size_t \<Rightarrow> addr list \<Rightarrow> addr list" where
  "candidates P m block_size xs =
     filter (\<lambda>b. status_b (m b) = STATUS_FREE \<and> block_size \<le> TOT_SIZE P (size_b (m b))) xs"

text \<open>
  The block with the smallest size, the earliest one on ties, and the null pointer when
  there is no block: the first block that no later block undercuts.
\<close>

fun smallest_first :: "(addr \<Rightarrow> block_meta_t) \<Rightarrow> addr list \<Rightarrow> addr" where
  "smallest_first m [] = 0"
| "smallest_first m (c # cs) =
     (if \<forall>d \<in> set cs. size_b (m c) \<le> size_b (m d) then c else smallest_first m cs)"

text \<open>
  The candidate that a scan from left to right holds after the blocks \<open>cs\<close>, when it
  held \<open>b\<close> before them: a block replaces the held one only if it is strictly smaller.
\<close>

fun scan_best :: "(addr \<Rightarrow> block_meta_t) \<Rightarrow> addr \<Rightarrow> addr list \<Rightarrow> addr" where
  "scan_best m b [] = b"
| "scan_best m b (c # cs) =
     scan_best m (if b = 0 \<or> size_b (m c) < size_b (m b) then c else b) cs"

text \<open>
  The heap as the specification describes it: the blocks of the list in traversal order,
  each with its address, size and status.
\<close>

definition blocks_of :: "(addr \<Rightarrow> block_meta_t) \<Rightarrow> addr list \<Rightarrow> (addr \<times> size_t \<times> status) list" where
  "blocks_of m xs = map (\<lambda>a. (a, size_b (m a), status_b (m a))) xs"

text \<open>
  Coalescing at every block of a traversal, from sections 4.3 and 4.4 of the
  specification: a FREE block whose successor is FREE takes the successor in
  (\<open>block.size += total(next.size)\<close>, the successor leaves the list), again and again
  until its successor is not FREE; then the traversal goes on to the successor.
\<close>

fun merge_free :: "platform \<Rightarrow> (addr \<times> size_t \<times> status) list \<Rightarrow> (addr \<times> size_t \<times> status) list" where
  "merge_free P ((a, sz, st) # (a', sz', st') # bs) =
     (if st = STATUS_FREE \<and> st' = STATUS_FREE
      then merge_free P ((a, sz + TOT_SIZE P sz', st) # bs)
      else (a, sz, st) # merge_free P ((a', sz', st') # bs))"
| "merge_free P [b] = [b]"
| "merge_free P [] = []"

text \<open>
  Best fit, from the specification: among the blocks that are FREE and have
  \<open>total(size) \<ge> required_total\<close> (\<open>fitting\<close>), the one of smallest size, the earliest in
  traversal order on ties, and null when there is none.
\<close>

definition fitting :: "platform \<Rightarrow> size_t \<Rightarrow> (addr \<times> size_t \<times> status) list \<Rightarrow> (addr \<times> size_t \<times> status) list" where
  "fitting P block_size bs =
     filter (\<lambda>(a, sz, st). st = STATUS_FREE \<and> block_size \<le> TOT_SIZE P sz) bs"

fun earliest_smallest :: "(addr \<times> size_t \<times> status) list \<Rightarrow> addr" where
  "earliest_smallest [] = 0"
| "earliest_smallest ((a, sz, st) # bs) =
     (if \<forall>(a', sz', st') \<in> set bs. sz \<le> sz' then a else earliest_smallest bs)"

definition best_candidate :: "platform \<Rightarrow> size_t \<Rightarrow> (addr \<times> size_t \<times> status) list \<Rightarrow> addr" where
  "best_candidate P block_size bs = earliest_smallest (fitting P block_size bs)"

text \<open>The free bytes of a list of blocks: the payload sizes of its FREE blocks.\<close>

definition free_bytes :: "(addr \<Rightarrow> block_meta_t) \<Rightarrow> addr list \<Rightarrow> nat" where
  "free_bytes m xs = sum_list (map (\<lambda>b. unat (size_b (m b))) (filter (\<lambda>b. status_b (m b) = STATUS_FREE) xs))"

text \<open>
  The header size is a non-zero multiple of the alignment, and small against the
  initial heap.
\<close>

definition valid_platform :: "platform \<Rightarrow> bool" where
  "valid_platform P = (META_SIZE P AND 7 = 0 \<and> 0 < META_SIZE P \<and> META_SIZE P \<le> 4096)"

text \<open>
  The states the public calls can reach. A first state has no heap and no mapped block,
  and the threshold at its default; the store and the break are whatever the process
  starts with.
\<close>

inductive reachable :: "platform \<Rightarrow> state \<Rightarrow> bool" for P :: platform where
  reachable_init:
    "heap_start s = 0 \<Longrightarrow> mmap_start s = 0 \<Longrightarrow> threshold s = MMAP_THRESHOLD \<Longrightarrow> reachable P s"
| reachable_malloc:
    "reachable P s \<Longrightarrow> os_malloc P s sz = Some (p, s') \<Longrightarrow> reachable P s'"
| reachable_free:
    "reachable P s \<Longrightarrow> os_free P s ptr = Some s' \<Longrightarrow> reachable P s'"
| reachable_calloc:
    "reachable P s \<Longrightarrow> os_calloc P s nmemb sz = Some (p, s') \<Longrightarrow> reachable P s'"
| reachable_realloc:
    "reachable P s \<Longrightarrow> os_realloc P s ptr sz = Some (p, s') \<Longrightarrow> reachable P s'"

section \<open>A concrete platform and concrete runs\<close>

text \<open>
  Modelled from the spec: the header \<open>{size, status, next}\<close> of section 3 on an LP64
  machine takes 8 + 4 (+ 4 of padding) + 8 = 24 bytes, so \<open>META_SIZE\<close> is 24 there; pages
  have 4096 bytes.
\<close>

definition lp64 :: platform where
  "lp64 = \<lparr>META_SIZE = 24, page_size = 4096\<rparr>"

text \<open>A process that has not called the allocator yet; its break is at \<open>0x10000\<close>.\<close>

definition fresh :: state where
  "fresh = \<lparr>heap_start = 0, mmap_start = 0, threshold = MMAP_THRESHOLD,
     mem = (\<lambda>_. \<lparr>size_b = 0, status_b = STATUS_FREE, next_b = 0\<rparr>),
     brk = 0x10000, brk_limit = 0x10000000, map_next = 0x7f0000000000\<rparr>"

text \<open>
  The heap that \<open>malloc(100)\<close> leaves on the fresh allocator, and an ALLOC header at
  \<open>0x50000\<close> that is not part of it.
\<close>

definition sample_heap :: state where
  "sample_heap = \<lparr>heap_start = 65536, mmap_start = 0, threshold = MMAP_THRESHOLD,
     mem = (\<lambda>_. \<lparr>size_b = 0, status_b = STATUS_FREE, next_b = 0\<rparr>)
       (65536 := \<lparr>size_b = 104, status_b = STATUS_ALLOC, next_b = 65664\<rparr>,
        65664 := \<lparr>size_b = 130920, status_b = STATUS_FREE, next_b = 0\<rparr>,
        327680 := \<lparr>size_b = 8, status_b = STATUS_ALLOC, next_b = 0\<rparr>),
     brk = 196608, brk_limit = 0x10000000, map_next = 0x7f0000000000\<rparr>"

text \<open>
  A heap of seven blocks. The FREE blocks at 66080 and 66168 lie side by side; merged,
  they have 104 bytes, as many as the FREE blocks at 65536 and 65888.
\<close>

definition sample_heap_ties :: state where
  "sample_heap_ties = \<lparr>heap_start = 65536, mmap_start = 0, threshold = MMAP_THRESHOLD,
     mem = (\<lambda>_. \<lparr>size_b = 0, status_b = STATUS_FREE, next_b = 0\<rparr>)
       (65536 := \<lparr>size_b = 104, status_b = STATUS_FREE, next_b = 65664\<rparr>,
        65664 := \<lparr>size_b = 200, status_b = STATUS_ALLOC, next_b = 65888\<rparr>,
        65888 := \<lparr>size_b = 104, status_b = STATUS_FREE, next_b = 66016\<rparr>,
        66016 := \<lparr>size_b = 40, status_b = STATUS_ALLOC, next_b = 66080\<rparr>,
        66080 := \<lparr>size_b = 64, status_b = STATUS_FREE, next_b = 66168\<rparr>,
        66168 := \<lparr>size_b = 16, status_b = STATUS_FREE, next_b = 66208\<rparr>,
        66208 := \<lparr>size_b = 130376, status_b = STATUS_ALLOC, next_b = 0\<rparr>),
     brk = 196608, brk_limit = 0x10000000, map_next = 0x7f0000000000\<rparr>"

text \<open>What a run has returned, and the header it has left at an address.\<close>

definition returned :: "(addr \<times> state) option \<Rightarrow> addr option" where
  "returned r = map_option fst r"

definition header_at :: "addr \<Rightarrow> (addr \<times> state) option \<Rightarrow> block_meta_t option" where
  "header_at a r = map_option (\<lambda>(p, s). mem s a) r"

text \<open>\<open>A = malloc(100)\<close>, \<open>B = malloc(100)\<close>, \<open>free(A)\<close>, \<open>free(B)\<close>.\<close>

definition run_free_in_order :: "(addr \<times> state) option" where
  "run_free_in_order =
     do {
       (a, s1) \<leftarrow> os_malloc lp64 fresh 100;
       (b, s2) \<leftarrow> os_malloc lp64 s1 100;
       s3 \<leftarrow> os_free lp64 s2 a;
       s4 \<leftarrow> os_free lp64 s3 b;
       Some (b, s4)
     }"

text \<open>\<open>free(malloc(100))\<close> on the fresh allocator.\<close>

definition run_malloc_free :: "(addr \<times> state) option" where
  "run_malloc_free =
     do {
       (a, s1) \<leftarrow> os_malloc lp64 fresh 100;
       s2 \<leftarrow> os_free lp64 s1 a;
       Some (a, s2)
     }"

text \<open>
  A heap that is initialised and full: the first request takes the whole initial heap.
  \<open>run_full_heap_round_trip\<close> then runs \<open>free(malloc(8))\<close> on it.
\<close>

definition run_full_heap :: "(addr \<times> state) option" where
  "run_full_heap = os_malloc lp64 fresh (131072 - 48)"

definition run_full_heap_round_trip :: "(addr \<times> state) option" where
  "run_full_heap_round_trip =
     do {
       (x, s1) \<leftarrow> run_full_heap;
       (a, s2) \<leftarrow> os_malloc lp64 s1 8;
       s3 \<leftarrow> os_free lp64 s2 a;
       Some (a, s3)
     }"

text \<open>
  Scenario 2 of the specification: \<open>A = malloc(100)\<close>, \<open>B = malloc(200)\<close>,
  \<open>C = malloc(100)\<close>, \<open>free(A)\<close>, \<open>free(C)\<close>, and then \<open>malloc(90)\<close>.
  \<open>run_best_fit_prefix\<close> is the run of the first five calls; it returns the pointer \<open>A\<close>
  with the state the calls leave. \<open>run_best_fit\<close> adds the \<open>malloc(90)\<close> and returns its
  pointer. \<open>run_best_fit_A\<close> is the pointer \<open>A\<close>.
\<close>

definition run_best_fit_prefix :: "(addr \<times> state) option" where
  "run_best_fit_prefix =
     do {
       (a, s1) \<leftarrow> os_malloc lp64 fresh 100;
       (b, s2) \<leftarrow> os_malloc lp64 s1 200;
       (c, s3) \<leftarrow> os_malloc lp64 s2 100;
       s4 \<leftarrow> os_free lp64 s3 a;
       s5 \<leftarrow> os_free lp64 s4 c;
       Some (a, s5)
     }"

definition run_best_fit :: "(addr \<times> state) option" where
  "run_best_fit =
     do {
       (a, s5) \<leftarrow> run_best_fit_prefix;
       os_malloc lp64 s5 90
     }"

definition run_best_fit_A :: "addr option" where
  "run_best_fit_A = returned (os_malloc lp64 fresh 100)"

text \<open>
  A heap whose last two blocks are a FREE block \<open>P\<close> and an ALLOC block \<open>B\<close>: the first
  request takes the whole initial heap, \<open>P = malloc(8)\<close> and \<open>B = malloc(8)\<close> extend the
  heap, and \<open>free(P)\<close> leaves \<open>P\<close> FREE in front of \<open>B\<close>. The run returns \<open>B\<close>.
\<close>

definition run_free_before_last :: "(addr \<times> state) option" where
  "run_free_before_last =
     do {
       (x, s1) \<leftarrow> os_malloc lp64 fresh (131072 - 48);
       (p, s2) \<leftarrow> os_malloc lp64 s1 8;
       (b, s3) \<leftarrow> os_malloc lp64 s2 8;
       s4 \<leftarrow> os_free lp64 s3 p;
       Some (b, s4)
     }"

text \<open>The same, followed by \<open>realloc(B, 100)\<close>.\<close>

definition run_realloc_last :: "(addr \<times> state) option" where
  "run_realloc_last =
     do {
       (b, s4) \<leftarrow> run_free_before_last;
       os_realloc lp64 s4 b 100
     }"

section \<open>Unfolding the loops\<close>

lemma find_block_loop_null: "find_block_loop s block 0 = Some 0"
  by (subst find_block_loop.simps) simp

lemma find_block_loop_hit: "block \<noteq> 0 \<Longrightarrow> find_block_loop s block block = Some block"
  by (subst find_block_loop.simps) simp

lemma find_block_loop_step:
  "current \<noteq> 0 \<Longrightarrow> current \<noteq> block \<Longrightarrow>
   find_block_loop s block current = find_block_loop s block (next_b (mem s current))"
  by (subst find_block_loop.simps) simp

lemma coalesce_blocks_stop:
  "\<not> can_coalesce_one_block s block \<Longrightarrow> coalesce_blocks P s block = Some s"
  by (subst coalesce_blocks.simps) simp

lemma coalesce_blocks_step:
  "can_coalesce_one_block s block \<Longrightarrow>
   coalesce_blocks P s block = coalesce_blocks P (coalesce_one_block P s block) block"
  by (subst coalesce_blocks.simps) simp

lemma find_best_fit_loop_null:
  "find_best_fit_loop P block_size s lastp best_fit 0 = Some (best_fit, lastp, s)"
  by (subst find_best_fit_loop.simps) simp

lemma find_best_fit_loop_step:
  "current \<noteq> 0 \<Longrightarrow>
   find_best_fit_loop P block_size s lastp best_fit current =
     do {
       s1 \<leftarrow> coalesce_blocks P s current;
       let best_fit1 =
         (if status_b (mem s1 current) = STATUS_FREE \<and>
             TOT_SIZE P (size_b (mem s1 current)) \<ge> block_size
          then (if best_fit = 0 \<or> size_b (mem s1 current) < size_b (mem s1 best_fit)
                then current else best_fit)
          else best_fit);
       find_best_fit_loop P block_size s1 current best_fit1 (next_b (mem s1 current))
     }"
  by (subst find_best_fit_loop.simps) simp

lemma grow_loop_stop:
  "\<not> (TOT_SIZE P (size_b (mem s block)) < blk_size \<and> can_coalesce_one_block s block) \<Longrightarrow>
   grow_loop P s block blk_size = Some s"
  by (subst grow_loop.simps) auto

lemma grow_loop_step:
  "TOT_SIZE P (size_b (mem s block)) < blk_size \<Longrightarrow> can_coalesce_one_block s block \<Longrightarrow>
   grow_loop P s block blk_size = grow_loop P (coalesce_one_block P s block) block blk_size"
  by (subst grow_loop.simps) simp

lemma os_free_mmap_loop_null: "os_free_mmap_loop P s block prev 0 = Some s"
  by (subst os_free_mmap_loop.simps) simp

lemma os_free_mmap_loop_hit:
  "block \<noteq> 0 \<Longrightarrow>
   os_free_mmap_loop P s block prev block =
     Some (if prev \<noteq> 0 then set_next s prev (next_b (mem s block))
           else s\<lparr>mmap_start := next_b (mem s block)\<rparr>)"
  by (subst os_free_mmap_loop.simps) (simp add: munmap_def Let_def)

lemma os_free_mmap_loop_step:
  "current \<noteq> 0 \<Longrightarrow> current \<noteq> block \<Longrightarrow>
   os_free_mmap_loop P s block prev current =
     os_free_mmap_loop P s block current (next_b (mem s current))"
  by (subst os_free_mmap_loop.simps) simp

section \<open>Evaluating concrete runs\<close>

lemma first_blocks_numeral:
  "first_blocks (numeral k) s a =
     (if a = 0 then []
      else (a, size_b (mem s a), status_b (mem s a)) #
           first_blocks (pred_numeral k) s (next_b (mem s a)))"
  by (simp add: numeral_eq_Suc)

lemmas run_simps =
  os_malloc_def ALIGN_def ALIGNMENT_def TOT_SIZE_def lp64_def fresh_def MMAP_THRESHOLD_def
  os_malloc_sbrk_def heap_init_def request_space_def sbrk_def mmap_def munmap_def
  INITIAL_HEAP_SIZE_def find_best_fit_def set_size_def set_status_def set_next_def
  can_coalesce_one_block_def coalesce_one_block_def split_block_def headers_overlap_def
  os_free_def
  os_free_sbrk_def os_free_mmap_def get_block_ptr_def find_block_in_heap_def
  os_realloc_def os_realloc_sbrk_def os_realloc_mmap_def os_malloc_mmap_def os_calloc_def
  heap_of_def returned_def header_at_def first_blocks_numeral
  find_block_loop_null find_block_loop_hit find_block_loop_step
  coalesce_blocks_stop coalesce_blocks_step
  find_best_fit_loop_null find_best_fit_loop_step grow_loop_stop grow_loop_step

section \<open>Alignment arithmetic\<close>

lemma and7_take_bit: "(w::64 word) AND 7 = take_bit 3 w"
  by (simp add: take_bit_eq_mask mask_numeral)

lemma and7_iff_dvd: "(w::64 word) AND 7 = 0 \<longleftrightarrow> 8 dvd unat w"
  using and_mask_dvd_nat [of 3 w] by (simp add: mask_numeral)

lemma and_not7: "(x::64 word) AND NOT 7 = x - (x AND 7)"
proof -
  have "NOT x AND (x AND 7) = 0"
    by (simp add: bit_eq_iff bit_simps)
  then have "x - (x AND 7) = x AND NOT (x AND 7)"
    by (rule disjunctive_diff_eq_and_not)
  also have "\<dots> = x AND NOT 7"
    by (auto simp: bit_eq_iff bit_simps)
  finally show ?thesis by simp
qed

lemma unat_and7: "unat ((x::64 word) AND 7) = unat x mod 8"
proof -
  have "unat (take_bit 3 x) = take_bit 3 (unat x)"
    by (rule unsigned_take_bit_eq)
  also have "\<dots> = unat x mod 2 ^ 3"
    by (rule take_bit_eq_mod)
  finally show ?thesis
    by (simp add: and7_take_bit)
qed

lemma dvd8_two64: "(8::nat) dvd 2 ^ 64"
  by simp

lemma and7_add_aligned:
  assumes "(b::64 word) AND 7 = 0" shows "(a + b) AND 7 = a AND 7"
proof -
  have b: "8 dvd unat b"
    using assms by (simp add: and7_iff_dvd)
  have "unat ((a + b) AND 7) = (unat a + unat b) mod 2 ^ 64 mod 8"
    by (simp add: unat_and7 unat_word_ariths)
  also have "\<dots> = (unat a + unat b) mod 8"
    by (simp add: mod_mod_cancel)
  also have "\<dots> = unat a mod 8"
    using b by (simp add: mod_add_right_eq [symmetric] dvd_eq_mod_eq_0)
  finally have "unat ((a + b) AND 7) = unat (a AND 7)"
    by (simp add: unat_and7)
  then show ?thesis
    by (simp add: word_unat_eq_iff)
qed

lemma add_aligned:
  assumes "(a::64 word) AND 7 = 0" "b AND 7 = 0" shows "(a + b) AND 7 = 0"
  using assms by (simp add: and7_add_aligned)

lemma sub_aligned:
  assumes "(a::64 word) AND 7 = 0" "b AND 7 = 0" shows "(a - b) AND 7 = 0"
proof -
  have "(a - b + b) AND 7 = (a - b) AND 7"
    using assms(2) by (rule and7_add_aligned)
  then show ?thesis
    using assms(1) by simp
qed

lemma ALIGN_eq: "ALIGN n = (n + 7) - ((n + 7) AND 7)"
  using and_not7 [of "n + 7"] by (simp add: ALIGN_def ALIGNMENT_def)

lemma ALIGN_id: "n AND 7 = 0 \<Longrightarrow> ALIGN n = n"
proof -
  assume a: "n AND 7 = 0"
  have "(n + 7) AND 7 = (7 + n) AND 7"
    by (simp add: add.commute)
  also have "\<dots> = 7 AND 7"
    using a by (rule and7_add_aligned)
  finally show ?thesis
    by (simp add: ALIGN_eq)
qed

lemma ALIGN_aligned: "ALIGN n AND 7 = 0"
  unfolding ALIGN_def ALIGNMENT_def by (simp add: and.assoc)



lemma TOT_SIZE_aligned: "META_SIZE P AND 7 = 0 \<Longrightarrow> n AND 7 = 0 \<Longrightarrow> TOT_SIZE P n = n + META_SIZE P"
  by (simp add: TOT_SIZE_def ALIGN_id add_aligned)


lemma unat_add_no_wrap:
  "unat a + unat b < 2 ^ 64 \<Longrightarrow> unat ((a::64 word) + b) = unat a + unat b"
  using unat_add_lem [of a b] by simp

lemma valid_platform_unat:
  "valid_platform P \<Longrightarrow>
   0 < unat (META_SIZE P) \<and> unat (META_SIZE P) \<le> 4096 \<and> 8 dvd unat (META_SIZE P)"
  by (simp add: valid_platform_def and7_iff_dvd word_le_nat_alt word_less_nat_alt)

lemma valid_platform_lp64: "valid_platform lp64"
  by (simp add: valid_platform_def lp64_def)

section \<open>Which region serves a request\<close>

lemma os_malloc_mmap_result:
  "os_malloc_mmap P s sz = Some (p, s') \<Longrightarrow>
   mmap_start s' = get_block_ptr P p \<and> status_b (mem s' (mmap_start s')) = STATUS_MAPPED \<and>
   heap_start s' = heap_start s"
  by (auto simp: os_malloc_mmap_def mmap_def set_size_def set_status_def set_next_def
      get_block_ptr_def Let_def split: if_splits)




section \<open>Splitting a block\<close>

lemma headers_overlap_offset:
  "headers_overlap P b (b + n) \<longleftrightarrow> n \<noteq> 0 \<and> (n < META_SIZE P \<or> - n < META_SIZE P)"
  by (simp add: headers_overlap_def)

lemma unat_minus_64:
  assumes "(n :: 64 word) \<noteq> 0"
  shows "unat (- n) = 2 ^ 64 - unat n"
proof -
  have "- n + n = 0"
    by simp
  then have "(unat (- n) + unat n) mod 2 ^ 64 = 0"
    using unat_word_ariths(1) [of "- n" n] by simp
  then obtain q where q: "unat (- n) + unat n = 2 ^ 64 * q"
    by (auto simp: mod_eq_0_iff_dvd dvd_def)
  have a: "unat (- n) < 2 ^ 64" "unat n < 2 ^ 64"
    using unsigned_less [of "- n", where ?'a = nat] unsigned_less [of n, where ?'a = nat]
    by simp_all
  have b: "0 < unat n"
    using assms by (simp add: unat_gt_0)
  have "q = 1"
  proof (cases q)
    case 0
    then show ?thesis using q b by simp
  next
    case (Suc r)
    show ?thesis
    proof (cases r)
      case 0
      then show ?thesis using Suc by simp
    next
      case (Suc t)
      then have "2 ^ 64 * 2 \<le> (2::nat) ^ 64 * q"
        using \<open>q = Suc r\<close> by simp
      then show ?thesis
        using q a by linarith
    qed
  qed
  then show ?thesis
    using q by simp
qed

lemma headers_apart:
  assumes "unat (META_SIZE P) \<le> unat n" "unat n + unat (META_SIZE P) \<le> 2 ^ 64"
  shows "\<not> headers_overlap P b (b + n)"
proof (cases "n = 0")
  case True
  then show ?thesis
    by (simp add: headers_overlap_def)
next
  case False
  have "unat (- n) = 2 ^ 64 - unat n"
    using False by (rule unat_minus_64)
  then have "unat (META_SIZE P) \<le> unat (- n)"
    using assms(2) by linarith
  then show ?thesis
    using assms(1) by (simp add: headers_overlap_offset word_less_nat_alt)
qed

lemma split_block_mem:
  assumes "\<not> headers_overlap P block (block + block_size)" and "block_size \<noteq> 0"
  shows "\<exists>s'. split_block P s block block_size = Some s' \<and>
         heap_start s' = heap_start s \<and>
         mem s' block = (mem s block)\<lparr>size_b := block_size - META_SIZE P,
           next_b := block + block_size\<rparr> \<and>
         mem s' (block + block_size) = (mem s (block + block_size))\<lparr>
           size_b := size_b (mem s block) - block_size, status_b := STATUS_FREE,
           next_b := next_b (mem s block)\<rparr> \<and>
         (\<forall>a. a \<noteq> block \<and> a \<noteq> block + block_size \<longrightarrow> mem s' a = mem s a)"
  using assms by (simp add: split_block_def set_size_def set_status_def set_next_def Let_def)

lemma split_block_fields:
  assumes "\<not> headers_overlap P block (block + block_size)" and "block_size \<noteq> 0"
  shows "\<exists>s'. split_block P s block block_size = Some s' \<and>
         size_b (mem s' (block + block_size)) = size_b (mem s block) - block_size \<and>
         status_b (mem s' (block + block_size)) = STATUS_FREE \<and>
         next_b (mem s' (block + block_size)) = next_b (mem s block) \<and>
         size_b (mem s' block) = block_size - META_SIZE P \<and>
         status_b (mem s' block) = status_b (mem s block) \<and>
         next_b (mem s' block) = block + block_size \<and>
         (\<forall>a. a \<noteq> block \<and> a \<noteq> block + block_size \<longrightarrow> mem s' a = mem s a) \<and>
         s' = s\<lparr>mem := mem s'\<rparr>"
  using assms by (simp add: split_block_def set_size_def set_status_def set_next_def Let_def)

lemma first_malloc:
  assumes P: "valid_platform P"
    and s: "heap_start s = 0" "threshold s = MMAP_THRESHOLD" "brk s \<noteq> 0"
        "unat (brk s) + unat INITIAL_HEAP_SIZE \<le> unat (brk_limit s)"
  shows "\<exists>s'. os_malloc P s 100 = Some (brk s + META_SIZE P, s') \<and>
     heap_start s' = brk s \<and>
     heap_list (mem s') (brk s) [brk s, brk s + (104 + META_SIZE P)] \<and>
     size_b (mem s' (brk s)) = 104 \<and> status_b (mem s' (brk s)) = STATUS_ALLOC \<and>
     size_b (mem s' (brk s + (104 + META_SIZE P))) = 131072 - 2 * META_SIZE P - 104 \<and>
     status_b (mem s' (brk s + (104 + META_SIZE P))) = STATUS_FREE"
proof -
  let ?M = "META_SIZE P"
  have m: "0 < unat ?M" "unat ?M \<le> 4096" and al: "?M AND 7 = 0"
    using P valid_platform_unat [of P] by (simp_all add: valid_platform_def)
  have u104: "unat (104 + ?M) = 104 + unat ?M"
    using m by (simp add: unat_add_no_wrap)
  have tot104: "TOT_SIZE P 104 = 104 + ?M"
    using al by (simp add: TOT_SIZE_aligned)
  have le: "?M \<le> 131072"
    using m by (simp add: word_le_nat_alt)
  have usub: "unat (131072 - ?M) = 131072 - unat ?M"
    using le by (simp add: unat_sub)
  have tot_init: "TOT_SIZE P (131072 - ?M) = 131072"
    using al by (simp add: TOT_SIZE_aligned sub_aligned)
  have c1: "104 + ?M < 131072"
    using m by (simp add: word_less_nat_alt u104)
  have c2: "104 + ?M < 131072 - ?M"
    using m by (simp add: word_less_nat_alt u104 usub)
  have c3: "104 + ?M \<le> 131072"
    using c1 by simp
  have "unat (brk s) + 131072 \<le> unat (brk_limit s)"
    using s(4) by (simp add: INITIAL_HEAP_SIZE_def)
  moreover have "unat (brk_limit s) < 2 ^ 64"
    using unsigned_less [of "brk_limit s", where ?'a = nat] by simp
  ultimately have ub: "unat (brk s) + 131072 < 2 ^ 64"
    by linarith
  have ua: "unat (brk s + (104 + ?M)) = unat (brk s) + (104 + unat ?M)"
    using ub m by (simp add: unat_add_no_wrap u104)
  have a1: "brk s + (104 + ?M) \<noteq> 0"
    using ua by (metis add_is_0 unat_0 zero_neq_numeral)
  have a2: "brk s + (104 + ?M) \<noteq> brk s"
    using ua by (metis add_cancel_right_right add_is_0 zero_neq_numeral)
  have no: "\<not> headers_overlap P (brk s) (brk s + (104 + ?M))"
    using m by (intro headers_apart) (simp_all add: u104)
  show ?thesis
    using s a1 a2 c1 c2 c3 no
    apply (simp add: os_malloc_def ALIGN_def ALIGNMENT_def tot104 MMAP_THRESHOLD_def
        os_malloc_sbrk_def heap_init_def request_space_def sbrk_def INITIAL_HEAP_SIZE_def find_best_fit_def
        set_size_def set_status_def set_next_def find_best_fit_loop_step find_best_fit_loop_null
        coalesce_blocks_stop can_coalesce_one_block_def tot_init split_block_def Let_def)
    done
qed


text \<open>
  Claim C2 says that the FREE block a split creates has the payload size
  \<open>s - (required_total - META)\<close>, and that \<open>malloc(100)\<close> on the fresh allocator leaves a FREE
  block of size \<open>131072 - META - 104\<close>. With \<open>META = 24\<close> that would be 130944; the block
  has 130920 bytes, which is \<open>131072 - 2 * META - 104\<close>.
\<close>

theorem first_malloc_free_block_size:
  "heap_of 3 (os_malloc lp64 fresh 100) =
     Some [(65536, 104, STATUS_ALLOC), (65664, 130920, STATUS_FREE)] \<and>
   (130920 :: size_t) \<noteq> 131072 - META_SIZE lp64 - 104"
  by (simp add: run_simps)

text \<open>
  Claim C2, amended. Whenever a block with payload size \<open>s\<close> is split to serve a required
  total that is not zero, at least \<open>META\<close> and at most \<open>2^64 - META\<close> (so that the new
  header lies clear of the header of the block), the split returns, and the new block at
  \<open>block + required_total\<close> is FREE, has the payload size \<open>s - required_total\<close> (the new
  header takes \<open>META\<close> bytes of the old payload) and the old \<open>next\<close> of the block; the block
  itself keeps \<open>required_total - META\<close> and points to the new block. In particular, on a
  fresh allocator \<open>malloc(100)\<close> leaves the heap list as a block of size 104, ALLOC,
  followed by a block of size \<open>131072 - 2 * META - 104\<close>, FREE.
\<close>

theorem split_surplus:
  "(block_size \<noteq> 0 \<and> unat (META_SIZE P) \<le> unat block_size \<and>
    unat block_size + unat (META_SIZE P) \<le> 2 ^ 64 \<longrightarrow>
      (\<exists>s'. split_block P s block block_size = Some s' \<and>
         size_b (mem s' (block + block_size)) = size_b (mem s block) - block_size \<and>
         status_b (mem s' (block + block_size)) = STATUS_FREE \<and>
         next_b (mem s' (block + block_size)) = next_b (mem s block) \<and>
         size_b (mem s' block) = block_size - META_SIZE P \<and>
         next_b (mem s' block) = block + block_size)) \<and>
   (valid_platform P \<and> heap_start s0 = 0 \<and> threshold s0 = MMAP_THRESHOLD \<and> brk s0 \<noteq> 0 \<and>
    unat (brk s0) + unat INITIAL_HEAP_SIZE \<le> unat (brk_limit s0) \<longrightarrow>
      (\<exists>s'. os_malloc P s0 100 = Some (brk s0 + META_SIZE P, s') \<and>
         heap_start s' = brk s0 \<and>
         heap_list (mem s') (brk s0) [brk s0, brk s0 + (104 + META_SIZE P)] \<and>
         size_b (mem s' (brk s0)) = 104 \<and> status_b (mem s' (brk s0)) = STATUS_ALLOC \<and>
         size_b (mem s' (brk s0 + (104 + META_SIZE P))) = 131072 - 2 * META_SIZE P - 104 \<and>
         status_b (mem s' (brk s0 + (104 + META_SIZE P))) = STATUS_FREE))"
proof (intro conjI impI)
  assume h: "block_size \<noteq> 0 \<and> unat (META_SIZE P) \<le> unat block_size \<and>
    unat block_size + unat (META_SIZE P) \<le> 2 ^ 64"
  then have "\<not> headers_overlap P block (block + block_size)"
    by (simp add: headers_apart)
  then show "\<exists>s'. split_block P s block block_size = Some s' \<and>
         size_b (mem s' (block + block_size)) = size_b (mem s block) - block_size \<and>
         status_b (mem s' (block + block_size)) = STATUS_FREE \<and>
         next_b (mem s' (block + block_size)) = next_b (mem s block) \<and>
         size_b (mem s' block) = block_size - META_SIZE P \<and>
         next_b (mem s' block) = block + block_size"
    using split_block_fields [of P block block_size s] h by blast
next
  assume "valid_platform P \<and> heap_start s0 = 0 \<and> threshold s0 = MMAP_THRESHOLD \<and> brk s0 \<noteq> 0 \<and>
    unat (brk s0) + unat INITIAL_HEAP_SIZE \<le> unat (brk_limit s0)"
  then show "\<exists>s'. os_malloc P s0 100 = Some (brk s0 + META_SIZE P, s') \<and>
         heap_start s' = brk s0 \<and>
         heap_list (mem s') (brk s0) [brk s0, brk s0 + (104 + META_SIZE P)] \<and>
         size_b (mem s' (brk s0)) = 104 \<and> status_b (mem s' (brk s0)) = STATUS_ALLOC \<and>
         size_b (mem s' (brk s0 + (104 + META_SIZE P))) = 131072 - 2 * META_SIZE P - 104 \<and>
         status_b (mem s' (brk s0 + (104 + META_SIZE P))) = STATUS_FREE"
    using first_malloc [of P s0] by blast
qed

text \<open>
  The split of the FREE block at 65664 of \<open>sample_heap\<close> (130920 bytes) for a required
  total of 128 bytes, and the first \<open>malloc(100)\<close> on the concrete platform.
\<close>

theorem split_surplus_witness:
  "(((128 :: size_t) \<noteq> 0 \<and> unat (META_SIZE lp64) \<le> unat (128 :: size_t) \<and>
     unat (128 :: size_t) + unat (META_SIZE lp64) \<le> 2 ^ 64) \<and>
      (\<exists>s'. split_block lp64 sample_heap 65664 128 = Some s' \<and>
         size_b (mem s' 65792) = 130792 \<and>
         status_b (mem s' 65792) = STATUS_FREE \<and>
         next_b (mem s' 65792) = 0 \<and>
         size_b (mem s' 65664) = 104 \<and>
         next_b (mem s' 65664) = 65792)) \<and>
   ((valid_platform lp64 \<and> heap_start fresh = 0 \<and> threshold fresh = MMAP_THRESHOLD \<and>
     brk fresh \<noteq> 0 \<and> unat (brk fresh) + unat INITIAL_HEAP_SIZE \<le> unat (brk_limit fresh)) \<and>
      (\<exists>s'. os_malloc lp64 fresh 100 = Some (brk fresh + META_SIZE lp64, s') \<and>
         heap_start s' = brk fresh \<and>
         heap_list (mem s') (brk fresh) [brk fresh, brk fresh + (104 + META_SIZE lp64)] \<and>
         size_b (mem s' (brk fresh)) = 104 \<and> status_b (mem s' (brk fresh)) = STATUS_ALLOC \<and>
         size_b (mem s' (brk fresh + (104 + META_SIZE lp64))) =
           131072 - 2 * META_SIZE lp64 - 104 \<and>
         status_b (mem s' (brk fresh + (104 + META_SIZE lp64))) = STATUS_FREE))"
proof -
  have h: "valid_platform lp64 \<and> heap_start fresh = 0 \<and> threshold fresh = MMAP_THRESHOLD \<and>
     brk fresh \<noteq> 0 \<and> unat (brk fresh) + unat INITIAL_HEAP_SIZE \<le> unat (brk_limit fresh)"
    by (simp add: valid_platform_lp64) (simp add: fresh_def INITIAL_HEAP_SIZE_def)
  have n: "(128 :: size_t) \<noteq> 0 \<and> unat (META_SIZE lp64) \<le> unat (128 :: size_t) \<and>
     unat (128 :: size_t) + unat (META_SIZE lp64) \<le> 2 ^ 64"
    by (simp add: lp64_def)
  have v: "size_b (mem sample_heap 65664) - 128 = 130792"
    "next_b (mem sample_heap 65664) = 0" "(65664 :: addr) + 128 = 65792"
    "(128 :: size_t) - META_SIZE lp64 = 104"
    by (simp_all add: sample_heap_def lp64_def)
  have "\<exists>s'. split_block lp64 sample_heap 65664 128 = Some s' \<and>
         size_b (mem s' (65664 + 128)) = size_b (mem sample_heap 65664) - 128 \<and>
         status_b (mem s' (65664 + 128)) = STATUS_FREE \<and>
         next_b (mem s' (65664 + 128)) = next_b (mem sample_heap 65664) \<and>
         size_b (mem s' 65664) = 128 - META_SIZE lp64 \<and>
         next_b (mem s' 65664) = 65664 + 128"
    using split_surplus [of 128 lp64 sample_heap 65664 fresh] n by blast
  then have 1: "\<exists>s'. split_block lp64 sample_heap 65664 128 = Some s' \<and>
         size_b (mem s' 65792) = 130792 \<and>
         status_b (mem s' 65792) = STATUS_FREE \<and>
         next_b (mem s' 65792) = 0 \<and>
         size_b (mem s' 65664) = 104 \<and>
         next_b (mem s' 65664) = 65792"
    by (simp only: v)
  show ?thesis
    using split_surplus [of 128 lp64 sample_heap 65664 fresh] h n 1 by blast
qed

section \<open>Runs on the concrete platform\<close>

text \<open>
  Claim C5 (address order of the heap list). \<open>malloc(2^64 - META)\<close> on the fresh allocator:
  the aligned size is \<open>2^64 - META\<close>, its total wraps around to 0, which is below the
  threshold, so the heap path runs and \<open>split_block(block, 0)\<close> writes the new header over
  the block itself. The block's \<open>next\<close> then points to the block: the walk from
  \<open>heap_start\<close> meets the block at 65536 again and again, so the addresses do not
  increase, and the walk never ends.
\<close>

theorem huge_malloc_makes_cycle:
  "returned (os_malloc lp64 fresh (- META_SIZE lp64)) = Some 65560 \<and>
   heap_of 3 (os_malloc lp64 fresh (- META_SIZE lp64)) =
     Some [(65536, - 24, STATUS_FREE), (65536, - 24, STATUS_FREE), (65536, - 24, STATUS_FREE)] \<and>
   header_at 65536 (os_malloc lp64 fresh (- META_SIZE lp64)) =
     Some \<lparr>size_b = - 24, status_b = STATUS_FREE, next_b = 65536\<rparr>"
  by (simp add: run_simps)

text \<open>
  Claim C4 says that no reachable state has two consecutive FREE blocks. After
  \<open>A = malloc(100)\<close>, \<open>B = malloc(100)\<close>, \<open>free(A)\<close>, \<open>free(B)\<close> the heap list is the FREE
  block \<open>A\<close> followed by a FREE block: \<open>free(B)\<close> merges \<open>B\<close> with the FREE tail behind it,
  and nothing merges \<open>A\<close> with \<open>B\<close>.
\<close>

theorem free_in_order_leaves_adjacent_free:
  "heap_of 3 run_free_in_order =
     Some [(65536, 104, STATUS_FREE), (65664, 130920, STATUS_FREE)]"
  by (simp add: run_simps run_free_in_order_def)

text \<open>
  Claim C9 says that \<open>free(malloc(n))\<close> keeps the number of heap blocks and the free bytes
  of every reachable state. The fresh allocator has no heap block; after
  \<open>free(malloc(100))\<close> it has one FREE block of 131048 bytes. And a heap whose only block
  is ALLOC and fills it has, after \<open>free(malloc(8))\<close>, a second block, FREE, of 8 bytes:
  the heap was extended, and the extension stays.
\<close>

theorem malloc_free_changes_heap:
  "heap_of 3 (Some (0, fresh)) = Some [] \<and>
   heap_of 3 run_malloc_free = Some [(65536, 131048, STATUS_FREE)] \<and>
   heap_of 3 run_full_heap = Some [(65536, 131048, STATUS_ALLOC)] \<and>
   heap_of 3 run_full_heap_round_trip =
     Some [(65536, 131048, STATUS_ALLOC), (196608, 8, STATUS_FREE)]"
  by (simp add: run_simps run_malloc_free_def run_full_heap_def run_full_heap_round_trip_def)

text \<open>
  Claim C1 (the last block grows in place). The heap before the call is a block that
  fills the initial heap, the FREE block \<open>P\<close> at 196608 and the ALLOC block \<open>B\<close> at 196640,
  which is the last one. \<open>realloc(B, 100)\<close> cannot grow \<open>B\<close> in place, \<open>B\<close> has no successor and
  the search finds no candidate. But the search has merged \<open>B\<close> into \<open>P\<close> on its way, so
  \<open>request_space\<close> extends \<open>P\<close>: afterwards \<open>P\<close> is the last block, ALLOC, with 104 bytes,
  the header of \<open>B\<close> is out of the list with its old size 8 and status FREE, and the call
  returns the old payload pointer of \<open>B\<close>, 196664, which lies inside the payload of \<open>P\<close>.
\<close>

theorem realloc_last_extends_predecessor:
  "heap_of 4 run_free_before_last =
     Some [(65536, 131048, STATUS_ALLOC), (196608, 8, STATUS_FREE), (196640, 8, STATUS_ALLOC)] \<and>
   returned run_free_before_last = Some 196664 \<and>
   returned run_realloc_last = Some 196664 \<and>
   heap_of 4 run_realloc_last =
     Some [(65536, 131048, STATUS_ALLOC), (196608, 104, STATUS_ALLOC)] \<and>
   header_at 196640 run_realloc_last =
     Some \<lparr>size_b = 8, status_b = STATUS_FREE, next_b = 0\<rparr>"
  by (simp add: run_simps run_free_before_last_def run_realloc_last_def)

section \<open>The threshold between the calls\<close>

lemma set_threshold [simp]:
  "threshold (set_size s a v) = threshold s"
  "threshold (set_status s a st) = threshold s"
  "threshold (set_next s a n) = threshold s"
  by (simp_all add: set_size_def set_status_def set_next_def)

lemma coalesce_one_block_threshold [simp]:
  "threshold (coalesce_one_block P s b) = threshold s"
  by (simp add: coalesce_one_block_def Let_def)

lemma split_block_threshold:
  "split_block P s b n = Some s' \<Longrightarrow> threshold s' = threshold s"
  by (auto simp: split_block_def Let_def split: if_splits)

lemma coalesce_blocks_threshold:
  assumes "coalesce_blocks P s b = Some s'"
  shows "threshold s' = threshold s"
proof -
  have "threshold s' = threshold (snd (fst ((P, s), b)))"
  proof (rule coalesce_blocks.raw_induct
        [where Pa = "\<lambda>x y. threshold y = threshold (snd (fst x))", OF _ assms])
    fix cb :: "platform \<Rightarrow> state \<Rightarrow> addr \<Rightarrow> state option" and P s block y
    assume IH: "\<And>P s block y. cb P s block = Some y \<Longrightarrow>
                  threshold y = threshold (snd (fst ((P, s), block)))"
      and eq: "(if can_coalesce_one_block s block
              then cb P (coalesce_one_block P s block) block else Some s) = Some y"
    show "threshold y = threshold (snd (fst ((P, s), block)))"
    proof (cases "can_coalesce_one_block s block")
      case True
      then have "cb P (coalesce_one_block P s block) block = Some y"
        using eq by simp
      then have "threshold y = threshold (snd (fst ((P, coalesce_one_block P s block), block)))"
        by (rule IH)
      then show ?thesis by simp
    next
      case False
      then show ?thesis using eq by simp
    qed
  qed
  then show ?thesis by simp
qed

lemma grow_loop_threshold:
  assumes "grow_loop P s b n = Some s'"
  shows "threshold s' = threshold s"
proof -
  have "threshold s' = threshold (snd (fst (fst (((P, s), b), n))))"
  proof (rule grow_loop.raw_induct
        [where Pa = "\<lambda>x y. threshold y = threshold (snd (fst (fst x)))", OF _ assms])
    fix gl :: "platform \<Rightarrow> state \<Rightarrow> addr \<Rightarrow> size_t \<Rightarrow> state option" and P s block blk_size y
    assume IH: "\<And>P s block blk_size y. gl P s block blk_size = Some y \<Longrightarrow>
                  threshold y = threshold (snd (fst (fst (((P, s), block), blk_size))))"
      and eq: "(if TOT_SIZE P (size_b (mem s block)) < blk_size \<and> can_coalesce_one_block s block
              then gl P (coalesce_one_block P s block) block blk_size else Some s) = Some y"
    show "threshold y = threshold (snd (fst (fst (((P, s), block), blk_size))))"
    proof (cases "TOT_SIZE P (size_b (mem s block)) < blk_size \<and> can_coalesce_one_block s block")
      case True
      then have "gl P (coalesce_one_block P s block) block blk_size = Some y"
        using eq by simp
      then have "threshold y =
          threshold (snd (fst (fst (((P, coalesce_one_block P s block), block), blk_size))))"
        by (rule IH)
      then show ?thesis by simp
    next
      case False
      then show ?thesis using eq by auto
    qed
  qed
  then show ?thesis by simp
qed

lemma os_free_mmap_loop_threshold:
  assumes "os_free_mmap_loop P s b prev cur = Some s'"
  shows "threshold s' = threshold s"
proof -
  have "threshold s' = threshold (snd (fst (fst (fst ((((P, s), b), prev), cur)))))"
  proof (rule os_free_mmap_loop.raw_induct
        [where Pa = "\<lambda>x y. threshold y = threshold (snd (fst (fst (fst x))))", OF _ assms])
    fix fl :: "platform \<Rightarrow> state \<Rightarrow> addr \<Rightarrow> addr \<Rightarrow> addr \<Rightarrow> state option"
      and P s block prev current y
    assume IH: "\<And>P s block prev current y. fl P s block prev current = Some y \<Longrightarrow>
                  threshold y = threshold (snd (fst (fst (fst ((((P, s), block), prev), current)))))"
      and eq: "(if current \<noteq> 0 then
        (if current = block then
           (let s1 = (if prev \<noteq> 0 then set_next s prev (next_b (mem s current))
                      else s\<lparr>mmap_start := next_b (mem s current)\<rparr>)
            in Some (munmap s1 current (TOT_SIZE P (size_b (mem s1 current)))))
         else fl P s block current (next_b (mem s current)))
      else Some s) = Some y"
    show "threshold y = threshold (snd (fst (fst (fst ((((P, s), block), prev), current)))))"
    proof (cases "current \<noteq> 0 \<and> current \<noteq> block")
      case True
      then have "fl P s block current (next_b (mem s current)) = Some y"
        using eq by simp
      then have "threshold y = threshold
          (snd (fst (fst (fst ((((P, s), block), current), next_b (mem s current))))))"
        by (rule IH)
      then show ?thesis by simp
    next
      case False
      then show ?thesis
        using eq by (auto simp: munmap_def Let_def split: if_splits)
    qed
  qed
  then show ?thesis by simp
qed

lemma find_best_fit_loop_threshold:
  assumes "find_best_fit_loop P n s l b c = Some y"
  shows "threshold (snd (snd y)) = threshold s"
proof -
  have "threshold (snd (snd y)) = threshold (snd (fst (fst (fst (((((P, n), s), l), b), c)))))"
  proof (rule find_best_fit_loop.raw_induct
        [where Pa = "\<lambda>x y. threshold (snd (snd y)) = threshold (snd (fst (fst (fst x))))",
          OF _ assms])
    fix fl :: "platform \<Rightarrow> size_t \<Rightarrow> state \<Rightarrow> addr \<Rightarrow> addr \<Rightarrow> addr \<Rightarrow> (addr \<times> addr \<times> state) option"
      and P block_size s lastp best_fit current y
    assume IH: "\<And>P block_size s lastp best_fit current y.
        fl P block_size s lastp best_fit current = Some y \<Longrightarrow>
        threshold (snd (snd y)) =
          threshold (snd (fst (fst (fst (((((P, block_size), s), lastp), best_fit), current)))))"
      and eq: "(if current \<noteq> 0 then
        do {
          s1 \<leftarrow> coalesce_blocks P s current;
          let best_fit1 =
            (if status_b (mem s1 current) = STATUS_FREE \<and>
                TOT_SIZE P (size_b (mem s1 current)) \<ge> block_size
             then (if best_fit = 0 \<or> size_b (mem s1 current) < size_b (mem s1 best_fit)
                   then current else best_fit)
             else best_fit);
          fl P block_size s1 current best_fit1 (next_b (mem s1 current))
        }
      else Some (best_fit, lastp, s)) = Some y"
    show "threshold (snd (snd y)) =
          threshold (snd (fst (fst (fst (((((P, block_size), s), lastp), best_fit), current)))))"
    proof (cases "current \<noteq> 0")
      case True
      then obtain s1 bf where c: "coalesce_blocks P s current = Some s1"
        and r: "fl P block_size s1 current bf (next_b (mem s1 current)) = Some y"
        using eq by (auto simp: Let_def split: bind_splits)
      have "threshold (snd (snd y)) = threshold (snd (fst (fst (fst
          (((((P, block_size), s1), current), bf), next_b (mem s1 current))))))"
        using r by (rule IH)
      then show ?thesis
        using coalesce_blocks_threshold [OF c] by simp
    next
      case False
      then show ?thesis using eq by auto
    qed
  qed
  then show ?thesis by simp
qed

lemma sbrk_threshold: "sbrk s n = Some (a, s') \<Longrightarrow> threshold s' = threshold s"
  by (auto simp: sbrk_def split: if_splits)

lemma mmap_threshold: "mmap s n = Some (a, s') \<Longrightarrow> threshold s' = threshold s"
  by (auto simp: mmap_def split: if_splits)

lemma request_space_threshold:
  "request_space P s l n = Some (a, s') \<Longrightarrow> threshold s' = threshold s"
  by (auto simp: request_space_def Let_def split: if_splits bind_splits dest: sbrk_threshold)

lemma heap_init_threshold: "heap_init P s = Some s' \<Longrightarrow> threshold s' = threshold s"
  by (auto simp: heap_init_def split: bind_splits dest: request_space_threshold)

lemma os_malloc_mmap_threshold:
  "os_malloc_mmap P s n = Some (a, s') \<Longrightarrow> threshold s' = threshold s"
  by (auto simp: os_malloc_mmap_def Let_def split: bind_splits dest: mmap_threshold)

lemma find_best_fit_threshold:
  "find_best_fit P s l hs n = Some (r, l', s') \<Longrightarrow> threshold s' = threshold s"
  using find_best_fit_loop_threshold [of P n s l 0 hs "(r, l', s')"]
  by (simp add: find_best_fit_def)

lemma os_malloc_sbrk_threshold:
  assumes "os_malloc_sbrk P s n = Some (a, s')"
  shows "threshold s' = threshold s"
proof -
  obtain s1 block l s2 where
    i: "(if heap_start s = 0 then heap_init P s else Some s) = Some s1"
    and f: "find_best_fit P s1 (heap_start s1) (heap_start s1) (TOT_SIZE P n) = Some (block, l, s2)"
    and r: "(if block = 0 then
         do {
           (block1, s3) \<leftarrow> request_space P s2 l (TOT_SIZE P n);
           let s4 = set_status s3 block1 STATUS_ALLOC;
           if block1 = 0 then Some (0, s4) else Some (block1 + META_SIZE P, s4)
         }
       else
         do {
           let s3 = set_status s2 block STATUS_ALLOC;
           s4 \<leftarrow> (if size_b (mem s3 block) > TOT_SIZE P n
                  then split_block P s3 block (TOT_SIZE P n) else Some s3);
           Some (block + META_SIZE P, s4)
         }) = Some (a, s')"
    using assms by (auto simp: os_malloc_sbrk_def Let_def split: bind_splits)
  have 1: "threshold s1 = threshold s"
    using i by (auto split: if_splits dest: heap_init_threshold)
  have 2: "threshold s2 = threshold s1"
    using f by (rule find_best_fit_threshold)
  have 3: "threshold s' = threshold s2"
  proof (cases "block = 0")
    case True
    then obtain block1 s3 where q: "request_space P s2 l (TOT_SIZE P n) = Some (block1, s3)"
      and e: "s' = set_status s3 block1 STATUS_ALLOC"
      using r by (auto simp: Let_def split: if_splits bind_splits)
    show ?thesis
      using request_space_threshold [OF q] e by simp
  next
    case False
    then show ?thesis
      using r by (auto simp: Let_def split: if_splits bind_splits dest: split_block_threshold)
  qed
  show ?thesis
    using 1 2 3 by simp
qed

lemma os_malloc_threshold:
  "os_malloc P s n = Some (a, s') \<Longrightarrow> threshold s' = threshold s"
  by (auto simp: os_malloc_def Let_def split: if_splits
      dest: os_malloc_sbrk_threshold os_malloc_mmap_threshold)

lemma os_free_sbrk_threshold:
  "os_free_sbrk P s ptr = Some s' \<Longrightarrow> threshold s' = threshold s"
  by (auto simp: os_free_sbrk_def Let_def split: if_splits bind_splits
      dest: coalesce_blocks_threshold)

lemma os_free_mmap_threshold:
  "os_free_mmap P s ptr = Some s' \<Longrightarrow> threshold s' = threshold s"
  by (auto simp: os_free_mmap_def dest: os_free_mmap_loop_threshold)

lemma os_free_threshold:
  "os_free P s ptr = Some s' \<Longrightarrow> threshold s' = threshold s"
  by (auto simp: os_free_def Let_def split: if_splits
      dest: os_free_sbrk_threshold os_free_mmap_threshold)

lemma os_realloc_mmap_threshold:
  assumes "os_realloc_mmap P s ptr n = Some (a, s')"
  shows "threshold s' = threshold s"
proof -
  obtain s1 where m: "os_malloc P s n = Some (a, s1)" and f: "os_free_mmap P s1 ptr = Some s'"
    using assms by (auto simp: os_realloc_mmap_def split: bind_splits)
  show ?thesis
    using os_malloc_threshold [OF m] os_free_mmap_threshold [OF f] by simp
qed

lemma os_calloc_threshold:
  "os_calloc P s nmemb n = Some (a, s') \<Longrightarrow> threshold s' = MMAP_THRESHOLD"
  by (auto simp: os_calloc_def Let_def split: bind_splits)

lemma os_realloc_sbrk_threshold:
  assumes "os_realloc_sbrk P s ptr n = Some (a, s')"
  shows "threshold s' = threshold s"
  using assms
  by (auto simp: os_realloc_sbrk_def Let_def split: if_splits bind_splits
      dest!: os_malloc_mmap_threshold os_free_sbrk_threshold grow_loop_threshold
        find_best_fit_threshold request_space_threshold os_malloc_sbrk_threshold
        split_block_threshold)

lemma os_realloc_threshold:
  "os_realloc P s ptr n = Some (a, s') \<Longrightarrow> threshold s' = threshold s"
  by (auto simp: os_realloc_def Let_def split: if_splits bind_splits
      dest!: os_malloc_threshold os_free_threshold os_realloc_mmap_threshold
        os_realloc_sbrk_threshold)

lemma reachable_threshold: "reachable P s \<Longrightarrow> threshold s = MMAP_THRESHOLD"
proof (induction rule: reachable.induct)
  case (reachable_init s)
  then show ?case by simp
next
  case (reachable_malloc s sz p s')
  then show ?case using os_malloc_threshold by fastforce
next
  case (reachable_free s ptr s')
  then show ?case using os_free_threshold by fastforce
next
  case (reachable_calloc s nmemb sz p s')
  then show ?case using os_calloc_threshold by fastforce
next
  case (reachable_realloc s ptr sz p s')
  then show ?case using os_realloc_threshold by fastforce
qed

lemma reachable_fresh: "reachable P fresh"
  by (rule reachable_init) (simp_all add: fresh_def)

text \<open>
  Claim C10. For every \<open>nmemb\<close> and \<open>size\<close> whose product in \<open>size_t\<close> arithmetic is zero,
  \<open>calloc(nmemb, size)\<close> in a reachable state returns null and leaves the state, with both
  lists and the threshold, as it was before the call: no block is allocated.
\<close>

theorem calloc_zero_product:
  assumes "reachable P s" and "nmemb * sz = 0"
  shows "os_calloc P s nmemb sz = Some (0, s)"
proof -
  have "threshold s = MMAP_THRESHOLD"
    using assms(1) by (rule reachable_threshold)
  then have "s\<lparr>threshold := MMAP_THRESHOLD\<rparr> = s"
    by simp
  then show ?thesis
    using assms(2) by (simp add: os_calloc_def os_malloc_def)
qed

theorem calloc_zero_product_witness:
  "(reachable lp64 fresh \<and> (4294967296 :: size_t) * 4294967296 = 0) \<and>
   os_calloc lp64 fresh 4294967296 4294967296 = Some (0, fresh)"
proof -
  have r: "reachable lp64 fresh"
    by (rule reachable_fresh)
  have z: "(4294967296 :: size_t) * 4294967296 = 0"
    by simp
  show ?thesis
    using calloc_zero_product [OF r z] r z by simp
qed

section \<open>Lists in the store\<close>

lemma heap_list_null [simp]: "heap_list m 0 xs \<longleftrightarrow> xs = []"
  by (cases xs) simp_all

lemma heap_list_nonnull:
  "a \<noteq> 0 \<Longrightarrow> heap_list m a xs \<longleftrightarrow> (\<exists>ys. xs = a # ys \<and> heap_list m (next_b (m a)) ys)"
  by (cases xs) auto

lemma heap_list_unique: "heap_list m a xs \<Longrightarrow> heap_list m a ys \<Longrightarrow> xs = ys"
proof (induction xs arbitrary: a ys)
  case Nil
  then show ?case by simp
next
  case (Cons x xs)
  then show ?case by (cases ys) auto
qed

lemma heap_list_no_null: "heap_list m a xs \<Longrightarrow> 0 \<notin> set xs"
  by (induction xs arbitrary: a) auto

lemma heap_list_suffix: "heap_list m a (xs @ y # ys) \<Longrightarrow> heap_list m y (y # ys)"
  by (induction xs arbitrary: a) auto

lemma heap_list_head_not_in_tail:
  assumes "heap_list m a (x # xs)"
  shows "x \<notin> set xs"
proof
  assume "x \<in> set xs"
  then obtain ys zs where xs: "xs = ys @ x # zs"
    by (auto simp: in_set_conv_decomp)
  have "heap_list m x (x # zs)"
    using assms heap_list_suffix [of m a "x # ys" x zs] by (auto simp: xs)
  moreover have "heap_list m x (x # xs)"
    using assms by auto
  ultimately have "x # zs = x # xs"
    by (rule heap_list_unique)
  then show False
    by (simp add: xs)
qed

lemma heap_list_distinct: "heap_list m a xs \<Longrightarrow> distinct xs"
proof (induction xs arbitrary: a)
  case Nil
  then show ?case by simp
next
  case (Cons x xs)
  then show ?case
    using heap_list_head_not_in_tail [of m a x xs] by auto
qed

lemma heap_list_cong:
  "(\<And>x. x \<in> set xs \<Longrightarrow> next_b (m' x) = next_b (m x)) \<Longrightarrow>
   heap_list m' a xs = heap_list m a xs"
  by (induction xs arbitrary: a) auto

lemma heap_list_update:
  "b \<notin> set xs \<Longrightarrow> heap_list (m(b := v)) a xs = heap_list m a xs"
  by (rule heap_list_cong) auto

section \<open>Pointers that are not in the heap list\<close>

lemma find_block_loop_heap_list:
  "heap_list (mem s) a xs \<Longrightarrow>
   find_block_loop s block a = Some (if block \<in> set xs then block else 0)"
proof (induction xs arbitrary: a)
  case Nil
  then show ?case by (simp add: find_block_loop_null)
next
  case (Cons x xs)
  then have a: "a \<noteq> 0" "a = x" and tl: "heap_list (mem s) (next_b (mem s a)) xs"
    by auto
  show ?case
  proof (cases "a = block")
    case True
    then show ?thesis using a by (simp add: find_block_loop_hit)
  next
    case False
    then show ?thesis
      using a Cons.IH [OF tl] by (simp add: find_block_loop_step)
  qed
qed

text \<open>
  Claim C8. Take a non-null pointer whose block status is not MAPPED and whose header is
  not reachable from \<open>heap_start\<close> by \<open>next\<close> links, in a state whose heap list ends (the
  walk from \<open>heap_start\<close> meets the blocks \<open>xs\<close> and then null). Then \<open>free\<close> of the
  pointer returns and leaves the whole state unchanged, and \<open>realloc\<close> of the pointer with
  a non-zero size returns null and leaves the whole state unchanged.
\<close>

theorem foreign_pointer_ignored:
  assumes "heap_list (mem s) (heap_start s) xs"
    and "ptr \<noteq> 0"
    and "status_b (mem s (get_block_ptr P ptr)) \<noteq> STATUS_MAPPED"
    and "get_block_ptr P ptr \<notin> set xs"
  shows "os_free P s ptr = Some s \<and> (sz \<noteq> 0 \<longrightarrow> os_realloc P s ptr sz = Some (0, s))"
proof -
  have f: "find_block_in_heap s (get_block_ptr P ptr) = Some 0"
    using find_block_loop_heap_list [OF assms(1), of "get_block_ptr P ptr"] assms(4)
    by (simp add: find_block_in_heap_def)
  have "os_free P s ptr = Some s"
    using assms(2,3) f by (simp add: os_free_def os_free_sbrk_def)
  moreover have "os_realloc P s ptr sz = Some (0, s)" if "sz \<noteq> 0"
    using assms(2,3) f that by (simp add: os_realloc_def os_realloc_sbrk_def Let_def)
  ultimately show ?thesis
    by simp
qed

theorem foreign_pointer_ignored_witness:
  "(heap_list (mem sample_heap) (heap_start sample_heap) [65536, 65664] \<and>
    (327704 :: addr) \<noteq> 0 \<and>
    status_b (mem sample_heap (get_block_ptr lp64 327704)) \<noteq> STATUS_MAPPED \<and>
    get_block_ptr lp64 327704 \<notin> set [65536, 65664]) \<and>
   os_free lp64 sample_heap 327704 = Some sample_heap \<and>
   ((16 :: size_t) \<noteq> 0 \<and> os_realloc lp64 sample_heap 327704 16 = Some (0, sample_heap))"
proof -
  have 1: "heap_list (mem sample_heap) (heap_start sample_heap) [65536, 65664]"
    by (simp add: sample_heap_def)
  have 2: "(327704 :: addr) \<noteq> 0"
    by simp
  have 3: "status_b (mem sample_heap (get_block_ptr lp64 327704)) \<noteq> STATUS_MAPPED"
    by (simp add: sample_heap_def get_block_ptr_def lp64_def)
  have 4: "get_block_ptr lp64 327704 \<notin> set [65536, 65664]"
    by (simp add: get_block_ptr_def lp64_def)
  have 5: "(16 :: size_t) \<noteq> 0"
    by simp
  show ?thesis
    using foreign_pointer_ignored [OF 1 2 3 4, of 16] 1 2 3 4 5 by blast
qed

section \<open>Coalescing a block of the heap list\<close>

lemma mem_set [simp]:
  "mem (set_size s a v) = (mem s)(a := (mem s a)\<lparr>size_b := v\<rparr>)"
  "mem (set_status s a st) = (mem s)(a := (mem s a)\<lparr>status_b := st\<rparr>)"
  "mem (set_next s a n) = (mem s)(a := (mem s a)\<lparr>next_b := n\<rparr>)"
  by (simp_all add: set_size_def set_status_def set_next_def)

lemma set_only_mem:
  "set_size s a v = s\<lparr>mem := mem (set_size s a v)\<rparr>"
  "set_status s a st = s\<lparr>mem := mem (set_status s a st)\<rparr>"
  "set_next s a n = s\<lparr>mem := mem (set_next s a n)\<rparr>"
  by (simp_all add: set_size_def set_status_def set_next_def)

lemma coalesce_one_block_mem:
  "can_coalesce_one_block s b \<Longrightarrow> next_b (mem s b) \<noteq> b \<Longrightarrow>
   mem (coalesce_one_block P s b) =
     (mem s)(b := (mem s b)\<lparr>size_b := size_b (mem s b) + TOT_SIZE P (size_b (mem s (next_b (mem s b)))),
                             next_b := next_b (mem s (next_b (mem s b)))\<rparr>)"
  by (simp add: coalesce_one_block_def Let_def)

lemma can_coalesce_one_block_iff:
  "can_coalesce_one_block s b \<longleftrightarrow>
     status_b (mem s b) = STATUS_FREE \<and> next_b (mem s b) \<noteq> 0 \<and>
     status_b (mem s (next_b (mem s b))) = STATUS_FREE"
  by (simp add: can_coalesce_one_block_def Let_def)

lemma only_mem_trans:
  "s1 = s\<lparr>mem := m1\<rparr> \<Longrightarrow> s' = s1\<lparr>mem := m'\<rparr> \<Longrightarrow> s' = s\<lparr>mem := m'\<rparr>"
  by simp

lemma coalesce_one_block_only_mem:
  "coalesce_one_block P s b = s\<lparr>mem := mem (coalesce_one_block P s b)\<rparr>"
  by (simp add: coalesce_one_block_def Let_def set_size_def set_next_def)

lemma coalesce_blocks_heap_list:
  assumes "heap_list (mem s) b (b # rest)"
  shows "\<exists>s' pre rest'. coalesce_blocks P s b = Some s' \<and> rest = pre @ rest' \<and>
           heap_list (mem s') b (b # rest') \<and>
           (\<forall>a. a \<noteq> b \<longrightarrow> mem s' a = mem s a) \<and>
           status_b (mem s' b) = status_b (mem s b) \<and>
           \<not> can_coalesce_one_block s' b \<and>
           s' = s\<lparr>mem := mem s'\<rparr>"
  using assms
proof (induction rest arbitrary: s)
  case Nil
  then have "\<not> can_coalesce_one_block s b"
    by (simp add: can_coalesce_one_block_def)
  then show ?case
    using Nil by (simp add: coalesce_blocks_stop)
next
  case (Cons n rest)
  show ?case
  proof (cases "can_coalesce_one_block s b")
    case False
    have "coalesce_blocks P s b = Some s"
      using False by (simp add: coalesce_blocks_stop)
    moreover have "n # rest = [] @ (n # rest)"
      by simp
    moreover have "s = s\<lparr>mem := mem s\<rparr>"
      by simp
    ultimately show ?thesis
      using Cons.prems False by blast
  next
    case True
    let ?s1 = "coalesce_one_block P s b"
    have b: "b \<noteq> 0" and nx: "next_b (mem s b) = n" and n: "n \<noteq> 0"
      and tl: "heap_list (mem s) (next_b (mem s n)) rest"
      using Cons.prems by auto
    have nin: "b \<notin> set (n # rest)"
      using Cons.prems by (rule heap_list_head_not_in_tail)
    have m1: "mem ?s1 = (mem s)(b := (mem s b)\<lparr>size_b := size_b (mem s b) + TOT_SIZE P (size_b (mem s n)),
                             next_b := next_b (mem s n)\<rparr>)"
      using coalesce_one_block_mem [OF True, of P] nin nx by auto
    have "heap_list (mem ?s1) (next_b (mem s n)) rest"
      using tl nin by (simp add: m1 heap_list_update)
    then have hl1: "heap_list (mem ?s1) b (b # rest)"
      using b by (simp add: m1)
    obtain s' pre rest' where r: "coalesce_blocks P ?s1 b = Some s'" "rest = pre @ rest'"
      "heap_list (mem s') b (b # rest')" "\<forall>a. a \<noteq> b \<longrightarrow> mem s' a = mem ?s1 a"
      "status_b (mem s' b) = status_b (mem ?s1 b)" "\<not> can_coalesce_one_block s' b"
      "s' = ?s1\<lparr>mem := mem s'\<rparr>"
      using Cons.IH [OF hl1] by blast
    have "coalesce_blocks P s b = Some s'"
      using True r(1) by (simp add: coalesce_blocks_step)
    moreover have "n # rest = (n # pre) @ rest'"
      using r(2) by simp
    moreover have "\<forall>a. a \<noteq> b \<longrightarrow> mem s' a = mem s a"
      using r(4) by (simp add: m1)
    moreover have "status_b (mem s' b) = status_b (mem s b)"
      using r(5) by (simp add: m1)
    moreover have "s' = s\<lparr>mem := mem s'\<rparr>"
      using coalesce_one_block_only_mem [of P s b] r(7) by (rule only_mem_trans)
    ultimately show ?thesis
      using r(3,6) by blast
  qed
qed

section \<open>The best-fit search\<close>

lemma candidates_Cons:
  "candidates P m bs (x # xs) =
     (if status_b (m x) = STATUS_FREE \<and> bs \<le> TOT_SIZE P (size_b (m x))
      then x # candidates P m bs xs else candidates P m bs xs)"
  by (simp add: candidates_def)

lemma candidates_Nil [simp]: "candidates P m bs [] = []"
  by (simp add: candidates_def)

lemma candidates_subset: "set (candidates P m bs xs) \<subseteq> set xs"
  by (auto simp: candidates_def)

lemma candidates_cong:
  "(\<And>x. x \<in> set xs \<Longrightarrow> m' x = m x) \<Longrightarrow> candidates P m' bs xs = candidates P m bs xs"
  by (induction xs) (simp_all add: candidates_Cons)

lemma scan_best_cong:
  "(\<And>x. x \<in> set cs \<Longrightarrow> m' x = m x) \<Longrightarrow> (b \<noteq> 0 \<Longrightarrow> m' b = m b) \<Longrightarrow>
   scan_best m' b cs = scan_best m b cs"
proof (induction cs arbitrary: b)
  case Nil
  then show ?case by simp
next
  case (Cons c cs)
  have c: "m' c = m c"
    using Cons.prems(1) by simp
  let ?b' = "if b = 0 \<or> size_b (m c) < size_b (m b) then c else b"
  have "scan_best m' ?b' cs = scan_best m ?b' cs"
    using Cons.prems c by (intro Cons.IH) auto
  moreover have "(if b = 0 \<or> size_b (m' c) < size_b (m' b) then c else b) = ?b'"
    using Cons.prems(2) c by auto
  ultimately show ?case
    by simp
qed

lemma find_best_fit_loop_heap_list:
  assumes "heap_list (mem s) cur xs" and "best = 0 \<or> best \<notin> set xs"
  shows "\<exists>s' ys. find_best_fit_loop P bs s lastp best cur =
             Some (scan_best (mem s') best (candidates P (mem s') bs ys),
                   (if ys = [] then lastp else last ys), s') \<and>
           heap_list (mem s') cur ys \<and> set ys \<subseteq> set xs \<and>
           (\<forall>a. a \<notin> set xs \<longrightarrow> mem s' a = mem s a) \<and>
           (\<forall>b \<in> set ys. status_b (mem s' b) = status_b (mem s b)) \<and>
           (\<forall>b \<in> set ys. \<not> can_coalesce_one_block s' b) \<and>
           s' = s\<lparr>mem := mem s'\<rparr>"
  using assms
proof (induction "length xs" arbitrary: xs s lastp best cur rule: less_induct)
  case less
  show ?case
  proof (cases xs)
    case Nil
    then have "cur = 0"
      using less.prems by simp
    then have "find_best_fit_loop P bs s lastp best cur =
             Some (scan_best (mem s) best (candidates P (mem s) bs []),
                   (if [] = ([] :: addr list) then lastp else last []), s)"
      by (simp add: find_best_fit_loop_null)
    moreover have "heap_list (mem s) cur []"
      using \<open>cur = 0\<close> by simp
    moreover have "s = s\<lparr>mem := mem s\<rparr>"
      by simp
    ultimately show ?thesis
      by (intro exI [of _ s] exI [of _ "[]"]) simp
  next
    case (Cons x rest)
    then have cur: "cur \<noteq> 0" "x = cur" and hl: "heap_list (mem s) cur (cur # rest)"
      using less.prems by auto
    obtain s1 pre rest' where c: "coalesce_blocks P s cur = Some s1" "rest = pre @ rest'"
      "heap_list (mem s1) cur (cur # rest')" "\<forall>a. a \<noteq> cur \<longrightarrow> mem s1 a = mem s a"
      "status_b (mem s1 cur) = status_b (mem s cur)" "\<not> can_coalesce_one_block s1 cur"
      "s1 = s\<lparr>mem := mem s1\<rparr>"
      using coalesce_blocks_heap_list [OF hl, of P] by blast
    let ?cand = "status_b (mem s1 cur) = STATUS_FREE \<and> bs \<le> TOT_SIZE P (size_b (mem s1 cur))"
    let ?best1 = "if ?cand then (if best = 0 \<or> size_b (mem s1 cur) < size_b (mem s1 best)
                   then cur else best) else best"
    let ?nx = "next_b (mem s1 cur)"
    have cur_nin: "cur \<notin> set rest'"
      using c(3) by (rule heap_list_head_not_in_tail)
    have best_nin: "best = 0 \<or> best \<notin> set (cur # rest')"
      using less.prems(2) Cons cur c(2) by auto
    have len: "length rest' < length xs"
      using Cons c(2) by simp
    have hl1: "heap_list (mem s1) ?nx rest'"
      using c(3) by simp
    have b1: "?best1 = 0 \<or> ?best1 \<notin> set rest'"
      using cur_nin best_nin by auto
    obtain s' ys' where r:
      "find_best_fit_loop P bs s1 cur ?best1 ?nx =
         Some (scan_best (mem s') ?best1 (candidates P (mem s') bs ys'),
               (if ys' = [] then cur else last ys'), s')"
      "heap_list (mem s') ?nx ys'" "set ys' \<subseteq> set rest'"
      "\<forall>a. a \<notin> set rest' \<longrightarrow> mem s' a = mem s1 a"
      "\<forall>b \<in> set ys'. status_b (mem s' b) = status_b (mem s1 b)"
      "\<forall>b \<in> set ys'. \<not> can_coalesce_one_block s' b"
      "s' = s1\<lparr>mem := mem s'\<rparr>"
      using less.hyps [OF len hl1 b1, of cur] by blast
    have mcur: "mem s' cur = mem s1 cur"
      using r(4) cur_nin by simp
    have mbest: "best \<noteq> 0 \<Longrightarrow> mem s' best = mem s1 best"
      using r(4) best_nin by auto
    have step: "find_best_fit_loop P bs s lastp best cur =
        find_best_fit_loop P bs s1 cur ?best1 ?nx"
      using cur(1) c(1) by (simp add: find_best_fit_loop_step Let_def)
    have best_eq: "scan_best (mem s') best (candidates P (mem s') bs (cur # ys')) =
        scan_best (mem s') ?best1 (candidates P (mem s') bs ys')"
      using mbest by (auto simp: candidates_Cons mcur)
    have last_eq: "(if ys' = [] then cur else last ys') =
        (if cur # ys' = [] then lastp else last (cur # ys'))"
      by simp
    have "find_best_fit_loop P bs s lastp best cur =
        Some (scan_best (mem s') ?best1 (candidates P (mem s') bs ys'),
               (if ys' = [] then cur else last ys'), s')"
      using step r(1) by (rule trans)
    then have 1: "find_best_fit_loop P bs s lastp best cur =
        Some (scan_best (mem s') best (candidates P (mem s') bs (cur # ys')),
              (if cur # ys' = [] then lastp else last (cur # ys')), s')"
      by (simp only: best_eq [symmetric] last_eq)
    have 2: "heap_list (mem s') cur (cur # ys')"
      using r(2) cur(1) by (simp add: mcur)
    have 3: "set (cur # ys') \<subseteq> set xs"
      using r(3) Cons cur c(2) by auto
    have 4: "\<forall>a. a \<notin> set xs \<longrightarrow> mem s' a = mem s a"
      using r(4) c(4) Cons cur c(2) by auto
    have 5: "\<forall>b \<in> set (cur # ys'). status_b (mem s' b) = status_b (mem s b)"
    proof
      fix b assume "b \<in> set (cur # ys')"
      then consider "b = cur" | "b \<in> set ys'" by auto
      then show "status_b (mem s' b) = status_b (mem s b)"
      proof cases
        case 1
        then show ?thesis using mcur c(5) by simp
      next
        case 2
        then have "b \<noteq> cur"
          using r(3) cur_nin by auto
        then show ?thesis
          using 2 r(5) c(4) by simp
      qed
    qed
    have "\<not> can_coalesce_one_block s' cur"
    proof (cases "?nx = 0")
      case True
      then show ?thesis
        by (simp add: can_coalesce_one_block_iff mcur)
    next
      case False
      then have "?nx \<in> set ys'"
        using r(2) by (cases ys') auto
      then have "status_b (mem s' ?nx) = status_b (mem s1 ?nx)"
        using r(5) by simp
      then show ?thesis
        using c(6) False by (simp add: can_coalesce_one_block_iff mcur)
    qed
    then have 6: "\<forall>b \<in> set (cur # ys'). \<not> can_coalesce_one_block s' b"
      using r(6) by simp
    have 7: "s' = s\<lparr>mem := mem s'\<rparr>"
      using c(7) r(7) by (rule only_mem_trans)
    show ?thesis
      by (intro exI [of _ s'] exI [of _ "cur # ys'"] conjI 1 2 3 4 5 6 7)
  qed
qed

lemma smallest_first_skip:
  "\<not> (\<forall>d \<in> set cs. size_b (m c) \<le> size_b (m d)) \<Longrightarrow>
   smallest_first m (c # cs) = smallest_first m cs"
  unfolding smallest_first.simps(2) by (rule if_not_P)

lemma smallest_first_take:
  "\<forall>d \<in> set cs. size_b (m c) \<le> size_b (m d) \<Longrightarrow> smallest_first m (c # cs) = c"
  unfolding smallest_first.simps(2) by (rule if_P)

lemma scan_best_smallest_first:
  "b \<noteq> 0 \<Longrightarrow> 0 \<notin> set cs \<Longrightarrow> scan_best m b cs = smallest_first m (b # cs)"
proof (induction cs arbitrary: b)
  case Nil
  then show ?case by simp
next
  case (Cons c cs)
  then have c: "c \<noteq> 0" and cs: "0 \<notin> set cs"
    by auto
  show ?case
  proof (cases "size_b (m c) < size_b (m b)")
    case True
    have "scan_best m b (c # cs) = scan_best m c cs"
      using True by simp
    also have "\<dots> = smallest_first m (c # cs)"
      using c cs by (rule Cons.IH)
    also have "\<dots> = smallest_first m (b # c # cs)"
    proof -
      have "\<not> (\<forall>d \<in> set (c # cs). size_b (m b) \<le> size_b (m d))"
        using True by auto
      then show ?thesis
        by (rule smallest_first_skip [symmetric])
    qed
    finally show ?thesis .
  next
    case False
    then have le: "size_b (m b) \<le> size_b (m c)"
      by simp
    have "scan_best m b (c # cs) = scan_best m b cs"
      using False Cons.prems(1) by simp
    also have "\<dots> = smallest_first m (b # cs)"
      using Cons.prems(1) cs by (rule Cons.IH)
    also have "\<dots> = smallest_first m (b # c # cs)"
    proof (cases "\<forall>d \<in> set cs. size_b (m b) \<le> size_b (m d)")
      case True
      then have "\<forall>d \<in> set (c # cs). size_b (m b) \<le> size_b (m d)"
        using le by simp
      then have "smallest_first m (b # c # cs) = b"
        by (rule smallest_first_take)
      moreover have "smallest_first m (b # cs) = b"
        using True by (rule smallest_first_take)
      ultimately show ?thesis by simp
    next
      case nall: False
      then obtain d where d: "d \<in> set cs" "size_b (m d) < size_b (m b)"
        by auto
      then have "size_b (m d) < size_b (m c)"
        using le by simp
      then have "\<not> size_b (m c) \<le> size_b (m d)"
        by simp
      then have n3: "\<not> (\<forall>d \<in> set cs. size_b (m c) \<le> size_b (m d))"
        using d(1) by blast
      have n2: "\<not> (\<forall>d \<in> set (c # cs). size_b (m b) \<le> size_b (m d))"
        using nall by simp
      have "smallest_first m (b # c # cs) = smallest_first m (c # cs)"
        using n2 by (rule smallest_first_skip)
      also have "\<dots> = smallest_first m cs"
        using n3 by (rule smallest_first_skip)
      finally have "smallest_first m (b # c # cs) = smallest_first m cs" .
      moreover have "smallest_first m (b # cs) = smallest_first m cs"
        using nall by (rule smallest_first_skip)
      ultimately show ?thesis by simp
    qed
    finally show ?thesis .
  qed
qed

lemma scan_best_from_null:
  "0 \<notin> set cs \<Longrightarrow> scan_best m 0 cs = smallest_first m cs"
proof (cases cs)
  case Nil
  then show ?thesis by simp
next
  case (Cons c cs')
  assume "0 \<notin> set cs"
  then have "c \<noteq> 0" "0 \<notin> set cs'"
    using Cons by auto
  then have "scan_best m c cs' = smallest_first m (c # cs')"
    by (rule scan_best_smallest_first)
  then show ?thesis
    using Cons by (simp del: smallest_first.simps)
qed

section \<open>What \<open>free\<close> and the search leave of adjacent FREE blocks\<close>

lemma heap_list_replace_tail:
  "heap_list m a (pre @ b # rest) \<Longrightarrow> heap_list m' b (b # rest') \<Longrightarrow>
   (\<And>x. x \<in> set pre \<Longrightarrow> next_b (m' x) = next_b (m x)) \<Longrightarrow>
   heap_list m' a (pre @ b # rest')"
proof (induction pre arbitrary: a)
  case Nil
  then show ?case by auto
next
  case (Cons p pre)
  then show ?case by auto
qed

lemma no_coalescable_no_adjacent_free:
  "heap_list (mem s) a ys \<Longrightarrow> \<forall>b \<in> set ys. \<not> can_coalesce_one_block s b \<Longrightarrow>
   no_adjacent_free (mem s) ys"
proof (induction "mem s" ys arbitrary: a rule: no_adjacent_free.induct)
  case (1 x y ys)
  then have "next_b (mem s x) = y" "y \<noteq> 0" "\<not> can_coalesce_one_block s x"
    and "heap_list (mem s) y (y # ys)" "\<forall>b \<in> set (y # ys). \<not> can_coalesce_one_block s b"
    by auto
  then show ?case
    using "1.hyps" by (auto simp: can_coalesce_one_block_iff)
next
  case (2 x)
  then show ?case by simp
next
  case 3
  then show ?case by simp
qed

lemma os_free_heap_block:
  assumes hl: "heap_list (mem s) (heap_start s) xs"
    and ptr: "ptr \<noteq> 0"
    and st: "status_b (mem s (get_block_ptr P ptr)) \<noteq> STATUS_MAPPED"
    and blk: "get_block_ptr P ptr \<in> set xs"
  shows "\<exists>s' ys. os_free P s ptr = Some s' \<and> heap_list (mem s') (heap_start s') ys \<and>
           get_block_ptr P ptr \<in> set ys \<and> set ys \<subseteq> set xs \<and>
           status_b (mem s' (get_block_ptr P ptr)) = STATUS_FREE \<and>
           \<not> can_coalesce_one_block s' (get_block_ptr P ptr)"
proof -
  let ?b = "get_block_ptr P ptr"
  let ?s1 = "set_status s ?b STATUS_FREE"
  obtain pre rest where xs: "xs = pre @ ?b # rest"
    using blk by (auto simp: in_set_conv_decomp)
  have b0: "?b \<noteq> 0"
    using heap_list_no_null [OF hl] blk by auto
  have hl0: "heap_list (mem s) ?b (?b # rest)"
    using hl heap_list_suffix [of "mem s" "heap_start s" pre ?b rest] by (simp add: xs)
  have "heap_list (mem ?s1) ?b (?b # rest) = heap_list (mem s) ?b (?b # rest)"
    by (rule heap_list_cong) simp
  then have hl1: "heap_list (mem ?s1) ?b (?b # rest)"
    using hl0 by (rule iffD2)
  obtain s' pre' rest' where c: "coalesce_blocks P ?s1 ?b = Some s'" "rest = pre' @ rest'"
    "heap_list (mem s') ?b (?b # rest')" "\<forall>a. a \<noteq> ?b \<longrightarrow> mem s' a = mem ?s1 a"
    "status_b (mem s' ?b) = status_b (mem ?s1 ?b)" "\<not> can_coalesce_one_block s' ?b"
    "s' = ?s1\<lparr>mem := mem s'\<rparr>"
    using coalesce_blocks_heap_list [OF hl1, of P] by blast
  have f: "find_block_in_heap s ?b = Some ?b"
    using find_block_loop_heap_list [OF hl, of ?b] blk by (simp add: find_block_in_heap_def)
  have 1: "os_free P s ptr = Some s'"
    using ptr st f b0 c(1) by (simp add: os_free_def os_free_sbrk_def)
  have d: "distinct xs"
    using hl by (rule heap_list_distinct)
  have pre_next: "next_b (mem s' x) = next_b (mem s x)" if "x \<in> set pre" for x
  proof -
    have "x \<noteq> ?b"
      using d that by (auto simp: xs)
    then show ?thesis
      using c(4) by simp
  qed
  have hs: "heap_start s' = heap_start s"
    using c(7) by (metis set_only_mem(2) only_mem_trans state.select_convs(1) state.surjective
        state.update_convs(4))
  have "heap_list (mem s') (heap_start s) (pre @ ?b # rest')"
    using hl c(3) pre_next unfolding xs by (rule heap_list_replace_tail)
  then have 2: "heap_list (mem s') (heap_start s') (pre @ ?b # rest')"
    using hs by simp
  have 3: "?b \<in> set (pre @ ?b # rest')"
    by simp
  have 4: "set (pre @ ?b # rest') \<subseteq> set xs"
    using c(2) by (auto simp: xs)
  have 5: "status_b (mem s' ?b) = STATUS_FREE"
    using c(5) by simp
  show ?thesis
    by (intro exI [of _ s'] exI [of _ "pre @ ?b # rest'"] conjI 1 2 3 4 5 c(6))
qed

text \<open>
  Claim C4, amended. Two consecutive blocks of the heap list can both be FREE in a
  reachable state, because \<open>free\<close> merges the freed block only with the FREE blocks
  behind it. What holds in every state whose heap list ends: after \<open>free(p)\<close> of a block of
  the heap list the block is FREE, still in the list, and the block behind it, if there
  is one, is not FREE; and after a best-fit search, with which every heap \<open>malloc\<close>
  begins, no two consecutive blocks of the heap list are both FREE.
\<close>

theorem no_adjacent_free_after_free_and_search:
  assumes "heap_list (mem s) (heap_start s) xs"
  shows "(ptr \<noteq> 0 \<and> status_b (mem s (get_block_ptr P ptr)) \<noteq> STATUS_MAPPED \<and>
          get_block_ptr P ptr \<in> set xs \<longrightarrow>
            (\<exists>s' ys. os_free P s ptr = Some s' \<and> heap_list (mem s') (heap_start s') ys \<and>
               get_block_ptr P ptr \<in> set ys \<and> set ys \<subseteq> set xs \<and>
               status_b (mem s' (get_block_ptr P ptr)) = STATUS_FREE \<and>
               \<not> (next_b (mem s' (get_block_ptr P ptr)) \<noteq> 0 \<and>
                  status_b (mem s' (next_b (mem s' (get_block_ptr P ptr)))) = STATUS_FREE))) \<and>
         (\<exists>r l s' ys. find_best_fit P s lastp (heap_start s) block_size = Some (r, l, s') \<and>
            heap_list (mem s') (heap_start s') ys \<and> set ys \<subseteq> set xs \<and>
            no_adjacent_free (mem s') ys)"
proof (intro conjI impI)
  assume a: "ptr \<noteq> 0 \<and> status_b (mem s (get_block_ptr P ptr)) \<noteq> STATUS_MAPPED \<and>
          get_block_ptr P ptr \<in> set xs"
  then obtain s' ys where r: "os_free P s ptr = Some s'" "heap_list (mem s') (heap_start s') ys"
    "get_block_ptr P ptr \<in> set ys" "set ys \<subseteq> set xs"
    "status_b (mem s' (get_block_ptr P ptr)) = STATUS_FREE"
    "\<not> can_coalesce_one_block s' (get_block_ptr P ptr)"
    using os_free_heap_block [OF assms, of ptr P] by blast
  have "\<not> (next_b (mem s' (get_block_ptr P ptr)) \<noteq> 0 \<and>
                  status_b (mem s' (next_b (mem s' (get_block_ptr P ptr)))) = STATUS_FREE)"
    using r(5,6) by (simp add: can_coalesce_one_block_iff)
  then show "\<exists>s' ys. os_free P s ptr = Some s' \<and> heap_list (mem s') (heap_start s') ys \<and>
               get_block_ptr P ptr \<in> set ys \<and> set ys \<subseteq> set xs \<and>
               status_b (mem s' (get_block_ptr P ptr)) = STATUS_FREE \<and>
               \<not> (next_b (mem s' (get_block_ptr P ptr)) \<noteq> 0 \<and>
                  status_b (mem s' (next_b (mem s' (get_block_ptr P ptr)))) = STATUS_FREE)"
    using r(1-5) by blast
next
  obtain s' ys where r:
    "find_best_fit_loop P block_size s lastp 0 (heap_start s) =
       Some (scan_best (mem s') 0 (candidates P (mem s') block_size ys),
             (if ys = [] then lastp else last ys), s')"
    "heap_list (mem s') (heap_start s) ys" "set ys \<subseteq> set xs"
    "\<forall>b \<in> set ys. \<not> can_coalesce_one_block s' b" "s' = s\<lparr>mem := mem s'\<rparr>"
    using find_best_fit_loop_heap_list [OF assms, of 0 P block_size lastp] by blast
  have hs: "heap_start s' = heap_start s"
    using r(5) by (metis state.select_convs(1) state.surjective state.update_convs(4))
  have 1: "find_best_fit P s lastp (heap_start s) block_size =
       Some (scan_best (mem s') 0 (candidates P (mem s') block_size ys),
             (if ys = [] then lastp else last ys), s')"
    using r(1) by (simp only: find_best_fit_def)
  have 2: "heap_list (mem s') (heap_start s') ys"
    using r(2) hs by simp
  have 3: "no_adjacent_free (mem s') ys"
    using r(2,4) by (rule no_coalescable_no_adjacent_free)
  show "\<exists>r l s' ys. find_best_fit P s lastp (heap_start s) block_size = Some (r, l, s') \<and>
            heap_list (mem s') (heap_start s') ys \<and> set ys \<subseteq> set xs \<and>
            no_adjacent_free (mem s') ys"
    using 1 2 r(3) 3 by blast
qed

theorem no_adjacent_free_after_free_and_search_witness:
  "heap_list (mem sample_heap_ties) (heap_start sample_heap_ties)
     [65536, 65664, 65888, 66016, 66080, 66168, 66208] \<and>
   (((66040 :: addr) \<noteq> 0 \<and>
     status_b (mem sample_heap_ties (get_block_ptr lp64 66040)) \<noteq> STATUS_MAPPED \<and>
     get_block_ptr lp64 66040 \<in> set [65536, 65664, 65888, 66016, 66080, 66168, 66208]) \<and>
    (\<exists>s' ys. os_free lp64 sample_heap_ties 66040 = Some s' \<and>
       heap_list (mem s') (heap_start s') ys \<and>
       get_block_ptr lp64 66040 \<in> set ys \<and>
       set ys \<subseteq> set [65536, 65664, 65888, 66016, 66080, 66168, 66208] \<and>
       status_b (mem s' (get_block_ptr lp64 66040)) = STATUS_FREE \<and>
       \<not> (next_b (mem s' (get_block_ptr lp64 66040)) \<noteq> 0 \<and>
          status_b (mem s' (next_b (mem s' (get_block_ptr lp64 66040)))) = STATUS_FREE))) \<and>
   (\<exists>r l s' ys. find_best_fit lp64 sample_heap_ties 0 (heap_start sample_heap_ties) 128 =
        Some (r, l, s') \<and>
      heap_list (mem s') (heap_start s') ys \<and>
      set ys \<subseteq> set [65536, 65664, 65888, 66016, 66080, 66168, 66208] \<and>
      no_adjacent_free (mem s') ys)"
proof -
  have h: "heap_list (mem sample_heap_ties) (heap_start sample_heap_ties)
     [65536, 65664, 65888, 66016, 66080, 66168, 66208]"
    by (simp add: sample_heap_ties_def)
  have a: "(66040 :: addr) \<noteq> 0 \<and>
     status_b (mem sample_heap_ties (get_block_ptr lp64 66040)) \<noteq> STATUS_MAPPED \<and>
     get_block_ptr lp64 66040 \<in> set [65536, 65664, 65888, 66016, 66080, 66168, 66208]"
    by (simp add: sample_heap_ties_def get_block_ptr_def lp64_def)
  show ?thesis
    using no_adjacent_free_after_free_and_search [OF h, of 66040 lp64 0 128] h a by blast
qed

section \<open>\<open>free(malloc(n))\<close> on a heap that has a candidate\<close>

lemma no_adjacent_free_no_coalescable:
  "heap_list (mem s) a xs \<Longrightarrow> no_adjacent_free (mem s) xs \<Longrightarrow>
   \<forall>b \<in> set xs. \<not> can_coalesce_one_block s b"
proof (induction "mem s" xs arbitrary: a rule: no_adjacent_free.induct)
  case (1 x y ys)
  then have "next_b (mem s x) = y" "heap_list (mem s) y (y # ys)"
    "\<not> (status_b (mem s x) = STATUS_FREE \<and> status_b (mem s y) = STATUS_FREE)"
    "no_adjacent_free (mem s) (y # ys)"
    by auto
  then show ?case
    using "1.hyps" by (auto simp: can_coalesce_one_block_iff)
next
  case (2 x)
  then show ?case by (auto simp: can_coalesce_one_block_iff)
next
  case 3
  then show ?case by simp
qed

lemma find_best_fit_loop_no_coalesce:
  "heap_list (mem s) cur xs \<Longrightarrow> \<forall>b \<in> set xs. \<not> can_coalesce_one_block s b \<Longrightarrow>
   find_best_fit_loop P bs s lastp best cur =
     Some (scan_best (mem s) best (candidates P (mem s) bs xs),
           (if xs = [] then lastp else last xs), s)"
proof (induction xs arbitrary: cur lastp best)
  case Nil
  then show ?case by (simp add: find_best_fit_loop_null)
next
  case (Cons x xs)
  then have cur: "cur \<noteq> 0" "x = cur" and tl: "heap_list (mem s) (next_b (mem s cur)) xs"
    and nc: "\<not> can_coalesce_one_block s cur" "\<forall>b \<in> set xs. \<not> can_coalesce_one_block s b"
    by auto
  have "find_best_fit_loop P bs s lastp best cur =
      find_best_fit_loop P bs s cur
        (if status_b (mem s cur) = STATUS_FREE \<and> bs \<le> TOT_SIZE P (size_b (mem s cur))
         then (if best = 0 \<or> size_b (mem s cur) < size_b (mem s best) then cur else best)
         else best) (next_b (mem s cur))"
    using cur(1) nc(1) by (simp add: find_best_fit_loop_step coalesce_blocks_stop Let_def)
  also have "\<dots> = Some (scan_best (mem s)
        (if status_b (mem s cur) = STATUS_FREE \<and> bs \<le> TOT_SIZE P (size_b (mem s cur))
         then (if best = 0 \<or> size_b (mem s cur) < size_b (mem s best) then cur else best)
         else best) (candidates P (mem s) bs xs),
           (if xs = [] then cur else last xs), s)"
    using tl nc(2) by (rule Cons.IH)
  also have "\<dots> = Some (scan_best (mem s) best (candidates P (mem s) bs (x # xs)),
           (if x # xs = [] then lastp else last (x # xs)), s)"
    using cur(2) by (auto simp: candidates_Cons)
  finally show ?case .
qed

lemma smallest_first_in: "cs \<noteq> [] \<Longrightarrow> smallest_first m cs \<in> set cs"
proof (induction cs)
  case Nil
  then show ?case by simp
next
  case (Cons c cs)
  show ?case
  proof (cases "\<forall>d \<in> set cs. size_b (m c) \<le> size_b (m d)")
    case True
    then show ?thesis by (simp add: smallest_first_take)
  next
    case False
    then have "cs \<noteq> []"
      by auto
    then show ?thesis
      using False Cons.IH by (simp add: smallest_first_skip del: smallest_first.simps)
  qed
qed

lemma candidates_iff:
  "b \<in> set (candidates P m bs xs) \<longleftrightarrow>
     b \<in> set xs \<and> status_b (m b) = STATUS_FREE \<and> bs \<le> TOT_SIZE P (size_b (m b))"
  by (auto simp: candidates_def)

lemma contiguous_tail: "contiguous P m (x # y # ys) e \<Longrightarrow> contiguous P m (y # ys) e"
  by simp

lemma contiguous_after:
  "contiguous P m (x # rest) e \<Longrightarrow> y \<in> set rest \<Longrightarrow>
   unat x + unat (META_SIZE P) + unat (size_b (m x)) \<le> unat y"
proof (induction rest arbitrary: x)
  case Nil
  then show ?case by simp
next
  case (Cons z rest)
  have xz: "unat x + unat (META_SIZE P) + unat (size_b (m x)) = unat z"
    and tl: "contiguous P m (z # rest) e"
    using Cons.prems(1) by simp_all
  show ?case
  proof (cases "y = z")
    case True
    then show ?thesis using xz by simp
  next
    case False
    then have "y \<in> set rest"
      using Cons.prems(2) by simp
    then have "unat z + unat (META_SIZE P) + unat (size_b (m z)) \<le> unat y"
      using tl Cons.IH by blast
    then show ?thesis
      using xz by linarith
  qed
qed

lemma contiguous_suffix:
  "contiguous P m (as @ y # bs) e \<Longrightarrow> contiguous P m (y # bs) e"
proof (induction as)
  case Nil
  then show ?case by simp
next
  case (Cons a as)
  then have "contiguous P m (as @ y # bs) e"
    by (cases as) simp_all
  then show ?case
    by (rule Cons.IH)
qed

lemma contiguous_end:
  "contiguous P m (x # rest) e \<Longrightarrow>
   unat x + unat (META_SIZE P) + unat (size_b (m x)) \<le> unat e"
proof (induction rest arbitrary: x)
  case Nil
  then show ?case by simp
next
  case (Cons z rest)
  have xz: "unat x + unat (META_SIZE P) + unat (size_b (m x)) = unat z"
    and tl: "contiguous P m (z # rest) e"
    using Cons.prems(1) by simp_all
  have "unat z + unat (META_SIZE P) + unat (size_b (m z)) \<le> unat e"
    using tl by (rule Cons.IH)
  then show ?case
    using xz by linarith
qed

lemma contiguous_inside_not_header:
  assumes c: "contiguous P m xs e" and k: "k \<in> set xs" and mp: "0 < unat (META_SIZE P)"
    and lo: "unat k < unat a" and hi: "unat a < unat k + unat (META_SIZE P) + unat (size_b (m k))"
  shows "a \<notin> set xs"
proof
  assume a: "a \<in> set xs"
  obtain pre rest where xs: "xs = pre @ k # rest"
    using k by (auto simp: in_set_conv_decomp)
  have ck: "contiguous P m (k # rest) e"
    using c contiguous_suffix [of P m pre k rest e] by (simp add: xs)
  consider "a \<in> set pre" | "a = k" | "a \<in> set rest"
    using a by (auto simp: xs)
  then show False
  proof cases
    case 1
    then obtain p2 r2 where pre: "pre = p2 @ a # r2"
      by (auto simp: in_set_conv_decomp)
    have "contiguous P m (a # r2 @ k # rest) e"
      using c contiguous_suffix [of P m p2 a "r2 @ k # rest" e] by (simp add: xs pre)
    then have "unat a + unat (META_SIZE P) + unat (size_b (m a)) \<le> unat k"
      by (rule contiguous_after) simp
    then show False
      using lo by linarith
  next
    case 2
    then show False using lo by simp
  next
    case 3
    have "unat k + unat (META_SIZE P) + unat (size_b (m k)) \<le> unat a"
      using ck 3 by (rule contiguous_after)
    then show False
      using hi by linarith
  qed
qed

lemma get_block_ptr_payload [simp]: "get_block_ptr P (k + META_SIZE P) = k"
  by (simp add: get_block_ptr_def)

lemma free_after_take:
  assumes hl: "heap_list (mem s) (heap_start s) xs" and k: "k \<in> set xs"
    and fr: "status_b (mem s k) = STATUS_FREE" and nc: "\<not> can_coalesce_one_block s k"
    and p: "k + META_SIZE P \<noteq> 0"
  shows "os_free P (set_status s k STATUS_ALLOC) (k + META_SIZE P) = Some s"
proof -
  let ?s3 = "set_status s k STATUS_ALLOC"
  have "heap_list (mem ?s3) (heap_start s) xs = heap_list (mem s) (heap_start s) xs"
    by (rule heap_list_cong) simp
  then have hl3: "heap_list (mem ?s3) (heap_start ?s3) xs"
    using hl by (simp add: set_status_def)
  have f: "find_block_in_heap ?s3 k = Some k"
    using find_block_loop_heap_list [OF hl3, of k] k by (simp add: find_block_in_heap_def)
  have k0: "k \<noteq> 0"
    using heap_list_no_null [OF hl] k by auto
  have "(mem s)(k := (mem s k)\<lparr>status_b := STATUS_FREE\<rparr>) = mem s"
    using fr by (metis block_meta_t.surjective block_meta_t.update_convs(2) fun_upd_triv)
  then have restored: "set_status ?s3 k STATUS_FREE = s"
    by (simp add: set_status_def)
  show ?thesis
    using p f k0 nc by (simp add: os_free_def os_free_sbrk_def restored coalesce_blocks_stop)
qed

lemma free_after_split:
  assumes hl: "heap_list (mem s) (heap_start s) xs" and k: "k \<in> set xs"
    and fr: "status_b (mem s k) = STATUS_FREE" and nc: "\<not> can_coalesce_one_block s k"
    and p: "k + META_SIZE P \<noteq> 0"
    and nb: "k + bs \<notin> set xs" "k + bs \<noteq> 0"
    and al: "META_SIZE P AND 7 = 0" "size_b (mem s k) AND 7 = 0" "bs AND 7 = 0"
    and no: "\<not> headers_overlap P k (k + bs)"
  shows "\<exists>s4 s2. split_block P (set_status s k STATUS_ALLOC) k bs = Some s4 \<and>
           os_free P s4 (k + META_SIZE P) = Some s2 \<and>
           heap_start s2 = heap_start s \<and> (\<forall>a. a \<noteq> k + bs \<longrightarrow> mem s2 a = mem s a)"
proof -
  let ?nb = "k + bs"
  have nbk: "?nb \<noteq> k"
    using k nb(1) by auto
  then have bs0: "bs \<noteq> 0"
    by auto
  obtain s4 where sp: "split_block P (set_status s k STATUS_ALLOC) k bs = Some s4"
    and hs4': "heap_start s4 = heap_start (set_status s k STATUS_ALLOC)"
    and m4k': "mem s4 k = (mem (set_status s k STATUS_ALLOC) k)\<lparr>size_b := bs - META_SIZE P,
      next_b := ?nb\<rparr>"
    and m4n': "mem s4 ?nb = (mem (set_status s k STATUS_ALLOC) ?nb)\<lparr>
      size_b := size_b (mem (set_status s k STATUS_ALLOC) k) - bs, status_b := STATUS_FREE,
      next_b := next_b (mem (set_status s k STATUS_ALLOC) k)\<rparr>"
    and m4o': "\<forall>a. a \<noteq> k \<and> a \<noteq> ?nb \<longrightarrow> mem s4 a = mem (set_status s k STATUS_ALLOC) a"
    using split_block_mem [OF no bs0, of "set_status s k STATUS_ALLOC"] by blast
  let ?s4 = "s4"
  let ?s5 = "set_status ?s4 k STATUS_FREE"
  let ?s6 = "coalesce_one_block P ?s5 k"
  have k0: "k \<noteq> 0"
    using heap_list_no_null [OF hl] k by auto
  have hs4: "heap_start ?s4 = heap_start s"
    using hs4' by (simp add: set_status_def)
  have m4k: "mem ?s4 k = (mem s k)\<lparr>status_b := STATUS_ALLOC, size_b := bs - META_SIZE P,
      next_b := ?nb\<rparr>"
    using m4k' by simp
  have m4n: "mem ?s4 ?nb = (mem s ?nb)\<lparr>size_b := size_b (mem s k) - bs,
      status_b := STATUS_FREE, next_b := next_b (mem s k)\<rparr>"
    using m4n' nbk by simp
  have m4o: "mem ?s4 a = mem s a" if "a \<noteq> k" "a \<noteq> ?nb" for a
    using that m4o' by simp
  obtain pre rest where xs: "xs = pre @ k # rest"
    using k by (auto simp: in_set_conv_decomp)
  have d: "distinct xs"
    using hl by (rule heap_list_distinct)
  have hk: "heap_list (mem s) k (k # rest)"
    using hl heap_list_suffix [of "mem s" "heap_start s" pre k rest] by (simp add: xs)
  have "heap_list (mem ?s4) (next_b (mem s k)) rest = heap_list (mem s) (next_b (mem s k)) rest"
  proof (rule heap_list_cong)
    fix x assume "x \<in> set rest"
    then have "x \<noteq> k" "x \<noteq> ?nb"
      using d nb(1) by (auto simp: xs)
    then show "next_b (mem ?s4 x) = next_b (mem s x)"
      by (simp add: m4o)
  qed
  then have "heap_list (mem ?s4) (next_b (mem s k)) rest"
    using hk by simp
  then have hk4: "heap_list (mem ?s4) k (k # ?nb # rest)"
    using k0 nb(2) by (simp add: m4k m4n)
  have pre4: "next_b (mem ?s4 x) = next_b (mem s x)" if "x \<in> set pre" for x
  proof -
    have "x \<noteq> k" "x \<noteq> ?nb"
      using d nb(1) that by (auto simp: xs)
    then show ?thesis
      by (simp add: m4o)
  qed
  have "heap_list (mem ?s4) (heap_start s) (pre @ k # ?nb # rest)"
    using hl hk4 pre4 unfolding xs by (rule heap_list_replace_tail)
  then have hl4: "heap_list (mem ?s4) (heap_start ?s4) (pre @ k # ?nb # rest)"
    by (simp only: hs4)
  have f: "find_block_in_heap ?s4 k = Some k"
    using find_block_loop_heap_list [OF hl4, of k] by (simp add: find_block_in_heap_def)
  have st4: "status_b (mem ?s4 k) \<noteq> STATUS_MAPPED"
    by (simp add: m4k)
  have free_eq: "os_free P ?s4 (k + META_SIZE P) = coalesce_blocks P ?s5 k"
    using p f k0 st4 by (simp add: os_free_def os_free_sbrk_def)
  have can5: "can_coalesce_one_block ?s5 k"
    using nb(2) nbk by (simp add: can_coalesce_one_block_iff m4k m4n)
  have tot: "TOT_SIZE P (size_b (mem s k) - bs) = size_b (mem s k) - bs + META_SIZE P"
    using al by (simp add: TOT_SIZE_aligned sub_aligned)
  have m6: "mem ?s6 = (mem ?s5)(k := (mem ?s5 k)\<lparr>size_b := size_b (mem ?s5 k) +
        TOT_SIZE P (size_b (mem ?s5 (next_b (mem ?s5 k)))),
      next_b := next_b (mem ?s5 (next_b (mem ?s5 k)))\<rparr>)"
    using can5 by (rule coalesce_one_block_mem) (use nbk in \<open>simp add: m4k\<close>)
  have m6k: "mem ?s6 k = mem s k"
  proof (rule block_meta_t.equality)
    show "size_b (mem ?s6 k) = size_b (mem s k)"
      using nbk by (simp add: m6 m4k m4n tot)
    show "status_b (mem ?s6 k) = status_b (mem s k)"
      using fr by (simp add: m6 m4k)
    show "next_b (mem ?s6 k) = next_b (mem s k)"
      using nbk by (simp add: m6 m4k m4n)
    show "block_meta_t.more (mem ?s6 k) = block_meta_t.more (mem s k)"
      by simp
  qed
  have m6o: "mem ?s6 a = mem s a" if "a \<noteq> ?nb" for a
  proof (cases "a = k")
    case True
    then show ?thesis by (simp add: m6k)
  next
    case False
    then have "mem ?s6 a = mem ?s5 a"
      by (simp add: m6)
    then show ?thesis
      using False that by (simp add: m4o)
  qed
  have hs6: "heap_start ?s6 = heap_start s"
    using coalesce_one_block_only_mem [of P ?s5 k] hs4
    by (metis set_only_mem(2) state.select_convs(1) state.surjective state.update_convs(4))
  have "\<not> can_coalesce_one_block ?s6 k"
  proof (cases "next_b (mem s k) = 0")
    case True
    then show ?thesis
      by (simp add: can_coalesce_one_block_iff m6k)
  next
    case False
    then have "next_b (mem s k) \<in> set rest"
      using hk by (cases rest) auto
    then have "next_b (mem s k) \<noteq> ?nb"
      using nb(1) by (auto simp: xs)
    then have "mem ?s6 (next_b (mem s k)) = mem s (next_b (mem s k))"
      by (rule m6o)
    then show ?thesis
      using nc by (simp add: can_coalesce_one_block_iff m6k)
  qed
  then have "coalesce_blocks P ?s6 k = Some ?s6"
    by (rule coalesce_blocks_stop)
  then have "coalesce_blocks P ?s5 k = Some ?s6"
    using can5 by (simp add: coalesce_blocks_step)
  then have 1: "os_free P ?s4 (k + META_SIZE P) = Some ?s6"
    using free_eq by simp
  have 3: "\<forall>a. a \<noteq> ?nb \<longrightarrow> mem ?s6 a = mem s a"
    using m6o by simp
  show ?thesis
    by (intro exI [of _ s4] exI [of _ ?s6] conjI sp 1 hs6 3)
qed

lemma unat_ALIGN_le: "unat n + 7 < 2 ^ 64 \<Longrightarrow> unat (ALIGN n) \<le> unat n + 7"
proof -
  assume "unat n + 7 < 2 ^ 64"
  then have u: "unat (n + 7) = unat n + 7"
    using unat_add_no_wrap [of n 7] by simp
  have "(n + 7) AND 7 \<le> n + 7"
    by (rule word_and_le2)
  then have "unat (ALIGN n) = unat (n + 7) - unat ((n + 7) AND 7)"
    by (simp add: ALIGN_eq unat_sub)
  then show ?thesis
    using u by simp
qed

lemma malloc_free_round_trip:
  assumes P: "valid_platform P"
    and hl: "heap_list (mem s) (heap_start s) xs"
    and contig: "contiguous P (mem s) xs (brk s)"
    and al: "\<forall>b \<in> set xs. size_b (mem s b) AND 7 = 0"
    and naf: "no_adjacent_free (mem s) xs"
    and n: "n \<noteq> 0" "n \<le> MMAP_THRESHOLD" "TOT_SIZE P (ALIGN n) < threshold s"
    and cand: "candidates P (mem s) (TOT_SIZE P (ALIGN n)) xs \<noteq> []"
  shows "\<exists>p s1 s2. os_malloc P s n = Some (p, s1) \<and> os_free P s1 p = Some s2 \<and>
           heap_start s2 = heap_start s \<and> (\<forall>b \<in> set xs. mem s2 b = mem s b)"
proof -
  let ?M = "META_SIZE P"
  let ?bs = "TOT_SIZE P (ALIGN n)"
  let ?cs = "candidates P (mem s) ?bs xs"
  define k where "k = smallest_first (mem s) ?cs"
  let ?s3 = "set_status s k STATUS_ALLOC"
  have m: "0 < unat ?M" "unat ?M \<le> 4096" and alM: "?M AND 7 = 0"
    using P valid_platform_unat [of P] by (simp_all add: valid_platform_def)
  have "k \<in> set ?cs"
    unfolding k_def using cand by (rule smallest_first_in)
  then have k: "k \<in> set xs" and fr: "status_b (mem s k) = STATUS_FREE"
    by (simp_all add: candidates_iff)
  have k0: "k \<noteq> 0"
    using heap_list_no_null [OF hl] k by auto
  have hs0: "heap_start s \<noteq> 0"
    using hl k by (cases xs) auto
  have ncs: "\<forall>b \<in> set xs. \<not> can_coalesce_one_block s b"
    using hl naf by (rule no_adjacent_free_no_coalescable)
  have nc: "\<not> can_coalesce_one_block s k"
    using ncs k by simp
  have "0 \<notin> set ?cs"
    using heap_list_no_null [OF hl] candidates_subset [of P "mem s" ?bs xs] by auto
  then have sb: "scan_best (mem s) 0 ?cs = k"
    unfolding k_def by (rule scan_best_from_null)
  have fbf: "find_best_fit P s (heap_start s) (heap_start s) ?bs =
      Some (k, (if xs = [] then heap_start s else last xs), s)"
    using find_best_fit_loop_no_coalesce [OF hl ncs, of P ?bs "heap_start s" 0] sb
    by (simp only: find_best_fit_def)
  obtain pre rest where xs: "xs = pre @ k # rest"
    using k by (auto simp: in_set_conv_decomp)
  have "contiguous P (mem s) (k # rest) (brk s)"
    using contig contiguous_suffix [of P "mem s" pre k rest "brk s"] by (simp add: xs)
  then have kend: "unat k + unat ?M + unat (size_b (mem s k)) \<le> unat (brk s)"
    by (rule contiguous_end)
  have brk: "unat (brk s) < 2 ^ 64"
    using unsigned_less [of "brk s", where ?'a = nat] by simp
  have "unat (k + ?M) = unat k + unat ?M"
    using kend brk by (intro unat_add_no_wrap) linarith
  then have "unat (k + ?M) \<noteq> 0"
    using m by simp
  then have p0: "k + ?M \<noteq> 0"
    by auto
  have un: "unat n \<le> 131072"
    using n(2) by (simp add: MMAP_THRESHOLD_def word_le_nat_alt)
  then have "unat (ALIGN n) \<le> unat n + 7"
    by (intro unat_ALIGN_le) simp
  then have ua: "unat (ALIGN n) \<le> 131079"
    using un by linarith
  have bs_eq: "?bs = ALIGN n + ?M"
    using alM by (simp add: TOT_SIZE_aligned ALIGN_aligned)
  have ubs: "unat ?bs = unat (ALIGN n) + unat ?M"
    unfolding bs_eq using ua m by (intro unat_add_no_wrap) simp
  have bs_al: "?bs AND 7 = 0"
    unfolding bs_eq using alM by (simp add: add_aligned ALIGN_aligned)
  have malloc_eq: "os_malloc P s n =
      do {
        s4 \<leftarrow> (if ?bs < size_b (mem ?s3 k) then split_block P ?s3 k ?bs else Some ?s3);
        Some (k + ?M, s4)
      }"
    using n(1,3) hs0 k0 fbf by (simp add: os_malloc_def os_malloc_sbrk_def Let_def)
  show ?thesis
  proof (cases "?bs < size_b (mem s k)")
    case False
    then have 1: "os_malloc P s n = Some (k + ?M, ?s3)"
      using malloc_eq by simp
    have 2: "os_free P ?s3 (k + ?M) = Some s"
      using hl k fr nc p0 by (rule free_after_take)
    show ?thesis
      using 1 2 by blast
  next
    case True
    have lt: "unat ?bs < unat (size_b (mem s k))"
      using True by (simp add: word_less_nat_alt)
    have no: "\<not> headers_overlap P k (k + ?bs)"
      using ubs kend brk lt by (intro headers_apart) linarith+
    have unb: "unat (k + ?bs) = unat k + unat ?bs"
      using kend brk lt by (intro unat_add_no_wrap) linarith
    have bpos: "0 < unat ?bs"
      using ubs m by simp
    have nb_nin: "k + ?bs \<notin> set xs"
      using contig k m(1)
    proof (rule contiguous_inside_not_header)
      show "unat k < unat (k + ?bs)"
        using unb bpos by simp
      show "unat (k + ?bs) < unat k + unat ?M + unat (size_b (mem s k))"
        using unb lt by simp
    qed
    have "unat (k + ?bs) \<noteq> 0"
      using unb bpos by simp
    then have nb0: "k + ?bs \<noteq> 0"
      by auto
    have alk: "size_b (mem s k) AND 7 = 0"
      using al k by simp
    obtain s4 s2 where sp: "split_block P ?s3 k ?bs = Some s4"
      and 2: "os_free P s4 (k + ?M) = Some s2"
      and 3: "heap_start s2 = heap_start s"
      and 4: "\<forall>a. a \<noteq> k + ?bs \<longrightarrow> mem s2 a = mem s a"
      using free_after_split [OF hl k fr nc p0 nb_nin nb0 alM alk bs_al no] by blast
    have 1: "os_malloc P s n = Some (k + ?M, s4)"
      using malloc_eq True sp by simp
    have 5: "\<forall>b \<in> set xs. mem s2 b = mem s b"
    proof
      fix b assume "b \<in> set xs"
      then have "b \<noteq> k + ?bs"
        using nb_nin by blast
      then show "mem s2 b = mem s b"
        using 4 by blast
    qed
    show ?thesis
      using 1 2 3 5 by blast
  qed
qed

lemma free_bytes_cong:
  "(\<And>b. b \<in> set xs \<Longrightarrow> m' b = m b) \<Longrightarrow> free_bytes m' xs = free_bytes m xs"
  by (induction xs) (simp_all add: free_bytes_def)

text \<open>
  Claim C9, amended. Take a state whose heap is initialised, with contiguous blocks of
  aligned sizes, in which no two consecutive blocks are FREE, and a request
  \<open>n \<le> MMAP_THRESHOLD\<close> that produces a heap allocation and for which the best-fit search
  finds a candidate. Then \<open>free(malloc(n))\<close> returns, and leaves the heap list with the
  same blocks, each with the header it had before the \<open>malloc\<close>: the same number of blocks
  and the same total of free bytes. (On a fresh allocator, when the heap has to be
  extended, or when the search merges FREE neighbours, the number of blocks and the free
  bytes change.)
\<close>

theorem malloc_free_keeps_heap:
  assumes "valid_platform P"
    and "heap_list (mem s) (heap_start s) xs"
    and "contiguous P (mem s) xs (brk s)"
    and "\<forall>b \<in> set xs. size_b (mem s b) AND 7 = 0"
    and "no_adjacent_free (mem s) xs"
    and "n \<noteq> 0" and "n \<le> MMAP_THRESHOLD" and "TOT_SIZE P (ALIGN n) < threshold s"
    and "candidates P (mem s) (TOT_SIZE P (ALIGN n)) xs \<noteq> []"
  shows "\<exists>p s1 s2. os_malloc P s n = Some (p, s1) \<and> os_free P s1 p = Some s2 \<and>
           heap_list (mem s2) (heap_start s2) xs \<and> (\<forall>b \<in> set xs. mem s2 b = mem s b) \<and>
           free_bytes (mem s2) xs = free_bytes (mem s) xs"
proof -
  obtain p s1 s2 where r: "os_malloc P s n = Some (p, s1)" "os_free P s1 p = Some s2"
    "heap_start s2 = heap_start s" "\<forall>b \<in> set xs. mem s2 b = mem s b"
    using malloc_free_round_trip [OF assms] by blast
  have "heap_list (mem s2) (heap_start s) xs = heap_list (mem s) (heap_start s) xs"
    using r(4) by (intro heap_list_cong) simp
  then have 1: "heap_list (mem s2) (heap_start s2) xs"
    using assms(2) r(3) by simp
  have 2: "free_bytes (mem s2) xs = free_bytes (mem s) xs"
    using r(4) by (intro free_bytes_cong) simp
  show ?thesis
    using r(1,2,4) 1 2 by blast
qed

theorem malloc_free_keeps_heap_witness:
  "(valid_platform lp64 \<and>
    heap_list (mem sample_heap) (heap_start sample_heap) [65536, 65664] \<and>
    contiguous lp64 (mem sample_heap) [65536, 65664] (brk sample_heap) \<and>
    size_b (mem sample_heap 65536) AND 7 = 0 \<and>
    size_b (mem sample_heap 65664) AND 7 = 0 \<and>
    no_adjacent_free (mem sample_heap) [65536, 65664] \<and>
    (50 :: size_t) \<noteq> 0 \<and> 50 \<le> MMAP_THRESHOLD \<and>
    TOT_SIZE lp64 (ALIGN 50) < threshold sample_heap \<and>
    candidates lp64 (mem sample_heap) (TOT_SIZE lp64 (ALIGN 50)) [65536, 65664] \<noteq> []) \<and>
   (\<exists>p s1 s2. os_malloc lp64 sample_heap 50 = Some (p, s1) \<and> os_free lp64 s1 p = Some s2 \<and>
      heap_list (mem s2) (heap_start s2) [65536, 65664] \<and>
      (\<forall>b \<in> set [65536, 65664]. mem s2 b = mem sample_heap b) \<and>
      free_bytes (mem s2) [65536, 65664] = free_bytes (mem sample_heap) [65536, 65664])"
proof -
  have 1: "valid_platform lp64"
    by (rule valid_platform_lp64)
  have 2: "heap_list (mem sample_heap) (heap_start sample_heap) [65536, 65664]"
    by (simp add: sample_heap_def)
  have 3: "contiguous lp64 (mem sample_heap) [65536, 65664] (brk sample_heap)"
    by (simp add: sample_heap_def lp64_def)
  have 4: "\<forall>b \<in> set [65536, 65664]. size_b (mem sample_heap b) AND 7 = 0"
    by (simp add: sample_heap_def)
  have 5: "no_adjacent_free (mem sample_heap) [65536, 65664]"
    by (simp add: sample_heap_def)
  have 6: "(50 :: size_t) \<noteq> 0"
    by simp
  have 7: "(50 :: size_t) \<le> MMAP_THRESHOLD"
    by (simp add: MMAP_THRESHOLD_def)
  have 8: "TOT_SIZE lp64 (ALIGN 50) < threshold sample_heap"
    by (simp add: sample_heap_def TOT_SIZE_def ALIGN_def ALIGNMENT_def lp64_def
        MMAP_THRESHOLD_def)
  have 9: "candidates lp64 (mem sample_heap) (TOT_SIZE lp64 (ALIGN 50)) [65536, 65664] \<noteq> []"
    by (simp add: sample_heap_def candidates_def TOT_SIZE_def ALIGN_def ALIGNMENT_def lp64_def)
  have 10: "size_b (mem sample_heap 65536) AND 7 = 0"
    "size_b (mem sample_heap 65664) AND 7 = 0"
    by (simp_all add: sample_heap_def)
  show ?thesis
    using malloc_free_keeps_heap [OF 1 2 3 4 5 6 7 8 9] 1 2 3 5 6 7 8 9 10 by blast
qed

section \<open>The best-fit search and the heap it starts from\<close>

lemma blocks_of_simps [simp]:
  "blocks_of m [] = []"
  "blocks_of m (x # xs) = (x, size_b (m x), status_b (m x)) # blocks_of m xs"
  "map fst (blocks_of m xs) = xs"
  by (simp_all add: blocks_of_def o_def)

lemma blocks_of_cong:
  "(\<And>x. x \<in> set xs \<Longrightarrow> m' x = m x) \<Longrightarrow> blocks_of m' xs = blocks_of m xs"
  by (simp add: blocks_of_def)

lemma blocks_of_eq_Nil [simp]: "blocks_of m xs = [] \<longleftrightarrow> xs = []"
  by (simp add: blocks_of_def)

lemma fitting_blocks_of:
  "fitting P bs (blocks_of m xs) = blocks_of m (candidates P m bs xs)"
  by (induction xs) (simp_all add: fitting_def candidates_def)

lemma earliest_smallest_blocks_of:
  "earliest_smallest (blocks_of m cs) = smallest_first m cs"
  by (induction cs) (simp_all add: blocks_of_def)

lemma best_candidate_blocks_of:
  "best_candidate P bs (blocks_of m xs) = smallest_first m (candidates P m bs xs)"
  by (simp add: best_candidate_def fitting_blocks_of earliest_smallest_blocks_of)

lemma earliest_smallest_decomp:
  "cs \<noteq> [] \<Longrightarrow>
   \<exists>pre a sz st post. cs = pre @ (a, sz, st) # post \<and> earliest_smallest cs = a \<and>
     (\<forall>(a', sz', st') \<in> set pre. sz < sz') \<and>
     (\<forall>(a', sz', st') \<in> set post. sz \<le> sz')"
proof (induction cs)
  case Nil
  then show ?case by simp
next
  case (Cons c cs)
  obtain a sz st where c: "c = (a, sz, st)"
    by (cases c) auto
  show ?case
  proof (cases "\<forall>(a', sz', st') \<in> set cs. sz \<le> sz'")
    case True
    then have "earliest_smallest (c # cs) = a"
      by (simp add: c)
    then have "c # cs = [] @ (a, sz, st) # cs \<and> earliest_smallest (c # cs) = a \<and>
        (\<forall>(a', sz', st') \<in> set []. sz < sz') \<and> (\<forall>(a', sz', st') \<in> set cs. sz \<le> sz')"
      using True by (simp add: c)
    then show ?thesis
      by blast
  next
    case False
    then obtain a1 sz1 st1 where d: "(a1, sz1, st1) \<in> set cs" "sz1 < sz"
      by (auto simp: not_le)
    then have ne: "cs \<noteq> []"
      by auto
    have sf: "earliest_smallest (c # cs) = earliest_smallest cs"
      using False by (auto simp: c)
    obtain pre b szb stb post where ih: "cs = pre @ (b, szb, stb) # post"
      "earliest_smallest cs = b"
      "\<forall>(a', sz', st') \<in> set pre. szb < sz'"
      "\<forall>(a', sz', st') \<in> set post. szb \<le> sz'"
      using Cons.IH [OF ne] by blast
    have "(a1, sz1, st1) \<in> set pre \<or> (a1, sz1, st1) = (b, szb, stb) \<or> (a1, sz1, st1) \<in> set post"
      using d(1) ih(1) by (metis Un_iff set_ConsD set_append)
    then have "szb \<le> sz1"
      using ih(3,4) by auto
    then have lt: "szb < sz"
      using d(2) by simp
    have "c # cs = (c # pre) @ (b, szb, stb) # post"
      using ih(1) by simp
    moreover have "\<forall>(a', sz', st') \<in> set (c # pre). szb < sz'"
      using ih(3) lt by (simp add: c)
    ultimately show ?thesis
      using ih(2,4) sf by metis
  qed
qed

lemma coalesce_blocks_merge:
  assumes "heap_list (mem s) b (b # rest)"
  shows "\<exists>s' pre rest'. coalesce_blocks P s b = Some s' \<and> rest = pre @ rest' \<and>
           heap_list (mem s') b (b # rest') \<and>
           (\<forall>a. a \<noteq> b \<longrightarrow> mem s' a = mem s a) \<and>
           merge_free P (blocks_of (mem s) (b # rest)) =
             (b, size_b (mem s' b), status_b (mem s' b)) # merge_free P (blocks_of (mem s) rest')"
  using assms
proof (induction rest arbitrary: s)
  case Nil
  then have "\<not> can_coalesce_one_block s b"
    by (simp add: can_coalesce_one_block_def)
  then show ?case
    using Nil by (simp add: coalesce_blocks_stop)
next
  case (Cons n rest)
  have b: "b \<noteq> 0" and nx: "next_b (mem s b) = n" and n: "n \<noteq> 0"
    and tl: "heap_list (mem s) (next_b (mem s n)) rest"
    using Cons.prems by auto
  have nin: "b \<notin> set (n # rest)"
    using Cons.prems by (rule heap_list_head_not_in_tail)
  show ?case
  proof (cases "can_coalesce_one_block s b")
    case False
    have "coalesce_blocks P s b = Some s"
      using False by (simp add: coalesce_blocks_stop)
    moreover have "n # rest = [] @ (n # rest)"
      by simp
    moreover have "\<not> (status_b (mem s b) = STATUS_FREE \<and> status_b (mem s n) = STATUS_FREE)"
      using False nx n by (simp add: can_coalesce_one_block_iff)
    then have "merge_free P (blocks_of (mem s) (b # n # rest)) =
        (b, size_b (mem s b), status_b (mem s b)) # merge_free P (blocks_of (mem s) (n # rest))"
      by auto
    ultimately show ?thesis
      using Cons.prems by blast
  next
    case True
    let ?s1 = "coalesce_one_block P s b"
    have fr: "status_b (mem s b) = STATUS_FREE" "status_b (mem s n) = STATUS_FREE"
      using True nx by (simp_all add: can_coalesce_one_block_iff)
    have m1: "mem ?s1 = (mem s)(b := (mem s b)\<lparr>size_b := size_b (mem s b) + TOT_SIZE P (size_b (mem s n)),
                             next_b := next_b (mem s n)\<rparr>)"
      using coalesce_one_block_mem [OF True, of P] nin nx by auto
    have "heap_list (mem ?s1) (next_b (mem s n)) rest"
      using tl nin by (simp add: m1 heap_list_update)
    then have hl1: "heap_list (mem ?s1) b (b # rest)"
      using b by (simp add: m1)
    obtain s' pre rest' where r: "coalesce_blocks P ?s1 b = Some s'" "rest = pre @ rest'"
      "heap_list (mem s') b (b # rest')" "\<forall>a. a \<noteq> b \<longrightarrow> mem s' a = mem ?s1 a"
      "merge_free P (blocks_of (mem ?s1) (b # rest)) =
         (b, size_b (mem s' b), status_b (mem s' b)) # merge_free P (blocks_of (mem ?s1) rest')"
      using Cons.IH [OF hl1] by blast
    have same: "\<And>ys. set ys \<subseteq> set rest \<Longrightarrow> blocks_of (mem ?s1) ys = blocks_of (mem s) ys"
      using nin by (intro blocks_of_cong) (auto simp: m1)
    have "merge_free P (blocks_of (mem s) (b # n # rest)) =
        merge_free P ((b, size_b (mem s b) + TOT_SIZE P (size_b (mem s n)), status_b (mem s b)) #
          blocks_of (mem s) rest)"
      using fr by simp
    also have "\<dots> = merge_free P (blocks_of (mem ?s1) (b # rest))"
      using same [of rest] by (simp add: m1)
    also have "\<dots> = (b, size_b (mem s' b), status_b (mem s' b)) #
        merge_free P (blocks_of (mem s) rest')"
      using r(5) same [of rest'] r(2) by simp
    finally have 5: "merge_free P (blocks_of (mem s) (b # n # rest)) =
        (b, size_b (mem s' b), status_b (mem s' b)) # merge_free P (blocks_of (mem s) rest')" .
    have "coalesce_blocks P s b = Some s'"
      using True r(1) by (simp add: coalesce_blocks_step)
    moreover have "n # rest = (n # pre) @ rest'"
      using r(2) by simp
    moreover have "\<forall>a. a \<noteq> b \<longrightarrow> mem s' a = mem s a"
      using r(4) by (simp add: m1)
    ultimately show ?thesis
      using r(3) 5 by blast
  qed
qed


lemma find_best_fit_loop_merge:
  assumes "heap_list (mem s) cur xs"
  shows "\<exists>s' ys r l. find_best_fit_loop P bs s lastp best cur = Some (r, l, s') \<and>
           heap_list (mem s') cur ys \<and>
           (\<forall>a. a \<notin> set xs \<longrightarrow> mem s' a = mem s a) \<and>
           blocks_of (mem s') ys = merge_free P (blocks_of (mem s) xs)"
  using assms
proof (induction "length xs" arbitrary: xs s lastp best cur rule: less_induct)
  case less
  show ?case
  proof (cases xs)
    case Nil
    then have "cur = 0"
      using less.prems by simp
    then have "find_best_fit_loop P bs s lastp best cur = Some (best, lastp, s)"
      by (simp add: find_best_fit_loop_null)
    moreover have "heap_list (mem s) cur []"
      using \<open>cur = 0\<close> by simp
    ultimately show ?thesis
      using Nil by (intro exI [of _ s] exI [of _ "[]"] exI [of _ best] exI [of _ lastp]) simp
  next
    case (Cons x rest)
    then have cur: "cur \<noteq> 0" "x = cur" and hl: "heap_list (mem s) cur (cur # rest)"
      using less.prems by auto
    obtain s1 pre rest' where c: "coalesce_blocks P s cur = Some s1" "rest = pre @ rest'"
      "heap_list (mem s1) cur (cur # rest')" "\<forall>a. a \<noteq> cur \<longrightarrow> mem s1 a = mem s a"
      "merge_free P (blocks_of (mem s) (cur # rest)) =
         (cur, size_b (mem s1 cur), status_b (mem s1 cur)) # merge_free P (blocks_of (mem s) rest')"
      using coalesce_blocks_merge [OF hl, of P] by blast
    let ?cand = "status_b (mem s1 cur) = STATUS_FREE \<and> bs \<le> TOT_SIZE P (size_b (mem s1 cur))"
    let ?best1 = "if ?cand then (if best = 0 \<or> size_b (mem s1 cur) < size_b (mem s1 best)
                   then cur else best) else best"
    let ?nx = "next_b (mem s1 cur)"
    have cur_nin: "cur \<notin> set rest'"
      using c(3) by (rule heap_list_head_not_in_tail)
    have len: "length rest' < length xs"
      using Cons c(2) by simp
    have hl1: "heap_list (mem s1) ?nx rest'"
      using c(3) by simp
    obtain s' ys' r l where r:
      "find_best_fit_loop P bs s1 cur ?best1 ?nx = Some (r, l, s')"
      "heap_list (mem s') ?nx ys'"
      "\<forall>a. a \<notin> set rest' \<longrightarrow> mem s' a = mem s1 a"
      "blocks_of (mem s') ys' = merge_free P (blocks_of (mem s1) rest')"
      using less.hyps [OF len hl1, of cur ?best1] by blast
    have mcur: "mem s' cur = mem s1 cur"
      using r(3) cur_nin by simp
    have step: "find_best_fit_loop P bs s lastp best cur =
        find_best_fit_loop P bs s1 cur ?best1 ?nx"
      using cur(1) c(1) by (simp add: find_best_fit_loop_step Let_def)
    have 1: "find_best_fit_loop P bs s lastp best cur = Some (r, l, s')"
      using step r(1) by (rule trans)
    have 2: "heap_list (mem s') cur (cur # ys')"
      using r(2) cur(1) by (simp add: mcur)
    have 3: "\<forall>a. a \<notin> set xs \<longrightarrow> mem s' a = mem s a"
      using r(3) c(4) Cons cur c(2) by auto
    have "blocks_of (mem s1) rest' = blocks_of (mem s) rest'"
      using cur_nin c(4) by (intro blocks_of_cong) auto
    then have 4: "blocks_of (mem s') (cur # ys') = merge_free P (blocks_of (mem s) xs)"
      using r(4) c(5) Cons cur by (simp add: mcur)
    show ?thesis
      using 1 2 3 4 by blast
  qed
qed

lemma merge_free_Nil [simp]: "merge_free P bs = [] \<longleftrightarrow> bs = []"
  by (induction P bs rule: merge_free.induct) auto

lemma find_best_fit_merge:
  assumes hl: "heap_list (mem s) hs xs" and M: "M = merge_free P (blocks_of (mem s) xs)"
  shows "\<exists>s'. find_best_fit P s lastp hs block_size =
             Some (best_candidate P block_size M,
                   (if M = [] then lastp else fst (last M)), s') \<and>
           s' = s\<lparr>mem := mem s'\<rparr> \<and> (\<forall>a. a \<notin> set xs \<longrightarrow> mem s' a = mem s a) \<and>
           heap_list (mem s') hs (map fst M) \<and> blocks_of (mem s') (map fst M) = M \<and>
           no_adjacent_free (mem s') (map fst M)"
proof -
  obtain s' ys where r:
    "find_best_fit_loop P block_size s lastp 0 hs =
       Some (scan_best (mem s') 0 (candidates P (mem s') block_size ys),
             (if ys = [] then lastp else last ys), s')"
    "heap_list (mem s') hs ys" "\<forall>a. a \<notin> set xs \<longrightarrow> mem s' a = mem s a"
    "\<forall>b \<in> set ys. \<not> can_coalesce_one_block s' b" "s' = s\<lparr>mem := mem s'\<rparr>"
    using find_best_fit_loop_heap_list [OF hl, of 0 P block_size lastp] by blast
  obtain t zs r1 l1 where m: "find_best_fit_loop P block_size s lastp 0 hs = Some (r1, l1, t)"
    "heap_list (mem t) hs zs" "blocks_of (mem t) zs = merge_free P (blocks_of (mem s) xs)"
    using find_best_fit_loop_merge [OF hl, of P block_size lastp 0] by blast
  have t: "t = s'"
    using r(1) m(1) by simp
  have "zs = ys"
    using m(2) r(2) unfolding t by (rule heap_list_unique)
  then have b: "blocks_of (mem s') ys = M"
    using m(3) by (simp add: t M)
  then have ys: "ys = map fst M"
    by (metis blocks_of_simps(3))
  have "0 \<notin> set ys"
    using r(2) by (rule heap_list_no_null)
  then have "0 \<notin> set (candidates P (mem s') block_size ys)"
    using candidates_subset [of P "mem s'" block_size ys] by auto
  then have "scan_best (mem s') 0 (candidates P (mem s') block_size ys) =
      smallest_first (mem s') (candidates P (mem s') block_size ys)"
    by (rule scan_best_from_null)
  also have "\<dots> = best_candidate P block_size M"
    using best_candidate_blocks_of [of P block_size "mem s'" ys] by (simp add: b)
  finally have res: "scan_best (mem s') 0 (candidates P (mem s') block_size ys) =
      best_candidate P block_size M" .
  have lst: "(if ys = [] then lastp else last ys) = (if M = [] then lastp else fst (last M))"
    by (simp add: ys last_map)
  have 1: "find_best_fit P s lastp hs block_size =
             Some (best_candidate P block_size M,
                   (if M = [] then lastp else fst (last M)), s')"
    using r(1) by (simp only: find_best_fit_def res lst)
  have 2: "no_adjacent_free (mem s') ys"
    using r(2,4) by (rule no_coalescable_no_adjacent_free)
  show ?thesis
    using 1 r(5) r(3) r(2) b 2 unfolding ys by blast
qed


lemma run_best_fit_prefix_heap:
  "\<exists>s5. run_best_fit_prefix = Some (65560, s5) \<and> heap_start s5 = 65536 \<and>
     threshold s5 = MMAP_THRESHOLD \<and>
     heap_list (mem s5) 65536 [65536, 65664, 65888] \<and>
     blocks_of (mem s5) [65536, 65664, 65888] =
       [(65536, 104, STATUS_FREE), (65664, 200, STATUS_ALLOC), (65888, 130696, STATUS_FREE)]"
  by (simp add: run_simps run_best_fit_prefix_def)

lemma lp64_sizes:
  "META_SIZE lp64 = 24" "TOT_SIZE lp64 104 = 128" "TOT_SIZE lp64 130696 = 130720"
  "TOT_SIZE lp64 96 = 120" "ALIGN 90 = 96"
  by (simp_all add: lp64_def TOT_SIZE_def ALIGN_def ALIGNMENT_def)

text \<open>
  Claim C6. Take a state whose heap list ends: the walk from \<open>hs\<close> visits the blocks
  \<open>xs\<close>. Let \<open>M\<close> be the list of blocks (address, size, status) that coalescing at every
  visit makes of them: each FREE block takes in the FREE blocks that follow it directly.
  Then \<open>find_best_fit\<close> returns, and what it returns is the best candidate of \<open>M\<close>: among
  the blocks of \<open>M\<close> that are FREE and have \<open>total(size) \<ge> block_size\<close>, the one with the
  smallest size, the earliest in traversal order on ties, and null when there is none;
  \<open>last\<close> is the last block of \<open>M\<close>. The state it leaves differs from the one it started
  from only in headers of blocks of \<open>xs\<close>: its heap list consists of the blocks of \<open>M\<close>,
  with the sizes and statuses of \<open>M\<close>, and no two consecutive blocks of it are FREE. The
  best candidate is null when no block fits; otherwise it splits the fitting blocks into
  those before it, which are all strictly larger, and those after it, which are all at
  least as large. Consequently, after \<open>A = malloc(100)\<close>, \<open>B = malloc(200)\<close>,
  \<open>C = malloc(100)\<close>, \<open>free(A)\<close>, \<open>free(C)\<close>, the call \<open>malloc(90)\<close> returns the pointer \<open>A\<close>:
  the five calls leave the blocks (65536, 104, FREE), (65664, 200, ALLOC) and
  (65888, 130696, FREE), and the block of \<open>A\<close> at 65536 is the best candidate of the two
  that fit a total of 120.
\<close>

theorem find_best_fit_smallest_first:
  assumes "heap_list (mem s) hs xs" and "M = merge_free P (blocks_of (mem s) xs)"
  shows "(\<exists>s'. find_best_fit P s lastp hs block_size =
             Some (best_candidate P block_size M,
                   (if M = [] then lastp else fst (last M)), s') \<and>
           s' = s\<lparr>mem := mem s'\<rparr> \<and> (\<forall>a. a \<notin> set xs \<longrightarrow> mem s' a = mem s a) \<and>
           heap_list (mem s') hs (map fst M) \<and> blocks_of (mem s') (map fst M) = M \<and>
           no_adjacent_free (mem s') (map fst M)) \<and>
         (fitting P block_size M = [] \<longrightarrow> best_candidate P block_size M = 0) \<and>
         (fitting P block_size M \<noteq> [] \<longrightarrow>
            (\<exists>pre a sz st post. fitting P block_size M = pre @ (a, sz, st) # post \<and>
               best_candidate P block_size M = a \<and>
               (\<forall>(a', sz', st') \<in> set pre. sz < sz') \<and>
               (\<forall>(a', sz', st') \<in> set post. sz \<le> sz'))) \<and>
         returned run_best_fit = run_best_fit_A \<and> run_best_fit_A = Some 65560"
proof -
  have 1: "\<exists>s'. find_best_fit P s lastp hs block_size =
             Some (best_candidate P block_size M,
                   (if M = [] then lastp else fst (last M)), s') \<and>
           s' = s\<lparr>mem := mem s'\<rparr> \<and> (\<forall>a. a \<notin> set xs \<longrightarrow> mem s' a = mem s a) \<and>
           heap_list (mem s') hs (map fst M) \<and> blocks_of (mem s') (map fst M) = M \<and>
           no_adjacent_free (mem s') (map fst M)"
    using assms by (rule find_best_fit_merge)
  have 2: "fitting P block_size M = [] \<longrightarrow> best_candidate P block_size M = 0"
    by (simp add: best_candidate_def)
  have 3: "fitting P block_size M \<noteq> [] \<longrightarrow>
            (\<exists>pre a sz st post. fitting P block_size M = pre @ (a, sz, st) # post \<and>
               best_candidate P block_size M = a \<and>
               (\<forall>(a', sz', st') \<in> set pre. sz < sz') \<and>
               (\<forall>(a', sz', st') \<in> set post. sz \<le> sz'))"
    unfolding best_candidate_def using earliest_smallest_decomp [of "fitting P block_size M"]
    by blast
  let ?B = "[(65536 :: addr, 104 :: size_t, STATUS_FREE), (65664, 200, STATUS_ALLOC),
            (65888, 130696, STATUS_FREE)]"
  obtain s5 where su: "run_best_fit_prefix = Some (65560, s5)" "heap_start s5 = 65536"
    "threshold s5 = MMAP_THRESHOLD" "heap_list (mem s5) 65536 [65536, 65664, 65888]"
    "blocks_of (mem s5) [65536, 65664, 65888] = ?B"
    using run_best_fit_prefix_heap by blast
  have M5: "?B = merge_free lp64 (blocks_of (mem s5) [65536, 65664, 65888])"
    unfolding su(5) by simp
  obtain s' where f: "find_best_fit lp64 s5 65536 65536 120 =
       Some (best_candidate lp64 120 ?B, (if ?B = [] then 65536 else fst (last ?B)), s')"
    "blocks_of (mem s') (map fst ?B) = ?B"
    using find_best_fit_merge [OF su(4) M5, of 65536 120] by blast
  have bc: "best_candidate lp64 120 ?B = 65536"
    by (simp add: best_candidate_def fitting_def lp64_sizes)
  have sz: "size_b (mem s' 65536) = 104"
    using f(2) by simp
  have "os_malloc lp64 s5 90 = Some (65560, set_status s' 65536 STATUS_ALLOC)"
    using f(1) sz
    by (simp add: os_malloc_def os_malloc_sbrk_def Let_def lp64_sizes su(2,3) bc
        MMAP_THRESHOLD_def)
  then have 4: "returned run_best_fit = Some 65560"
    by (simp add: run_best_fit_def su(1) returned_def)
  have 5: "run_best_fit_A = Some 65560"
    by (simp add: run_simps run_best_fit_A_def)
  show ?thesis
    using 1 2 3 4 5 by simp
qed


text \<open>
  The heap of seven blocks \<open>sample_heap_ties\<close>: the search merges the FREE blocks at 66080
  and 66168, three blocks of 104 bytes fit a total of 128 and the first of them is
  returned; no block fits a total of 1048576 and the search returns null.
\<close>

theorem find_best_fit_smallest_first_witness:
  "(heap_list (mem sample_heap_ties) 65536 [65536, 65664, 65888, 66016, 66080, 66168, 66208] \<and>
    [(65536, 104, STATUS_FREE), (65664, 200, STATUS_ALLOC), (65888, 104, STATUS_FREE),
     (66016, 40, STATUS_ALLOC), (66080, 104, STATUS_FREE), (66208, 130376, STATUS_ALLOC)] =
      merge_free lp64 (blocks_of (mem sample_heap_ties)
        [65536, 65664, 65888, 66016, 66080, 66168, 66208])) \<and>
   (\<exists>s'. find_best_fit lp64 sample_heap_ties 0 65536 128 = Some (65536, 66208, s') \<and>
      heap_list (mem s') 65536 [65536, 65664, 65888, 66016, 66080, 66208] \<and>
      blocks_of (mem s') [65536, 65664, 65888, 66016, 66080, 66208] =
        [(65536, 104, STATUS_FREE), (65664, 200, STATUS_ALLOC), (65888, 104, STATUS_FREE),
         (66016, 40, STATUS_ALLOC), (66080, 104, STATUS_FREE), (66208, 130376, STATUS_ALLOC)] \<and>
      no_adjacent_free (mem s') [65536, 65664, 65888, 66016, 66080, 66208]) \<and>
   fitting lp64 128
     [(65536, 104, STATUS_FREE), (65664, 200, STATUS_ALLOC), (65888, 104, STATUS_FREE),
      (66016, 40, STATUS_ALLOC), (66080, 104, STATUS_FREE), (66208, 130376, STATUS_ALLOC)] =
     [(65536, 104, STATUS_FREE), (65888, 104, STATUS_FREE), (66080, 104, STATUS_FREE)] \<and>
   (\<exists>s'. find_best_fit lp64 sample_heap_ties 0 65536 1048576 = Some (0, 66208, s') \<and>
      blocks_of (mem s') [65536, 65664, 65888, 66016, 66080, 66208] =
        [(65536, 104, STATUS_FREE), (65664, 200, STATUS_ALLOC), (65888, 104, STATUS_FREE),
         (66016, 40, STATUS_ALLOC), (66080, 104, STATUS_FREE), (66208, 130376, STATUS_ALLOC)]) \<and>
   fitting lp64 1048576
     [(65536, 104, STATUS_FREE), (65664, 200, STATUS_ALLOC), (65888, 104, STATUS_FREE),
      (66016, 40, STATUS_ALLOC), (66080, 104, STATUS_FREE), (66208, 130376, STATUS_ALLOC)] = []"
proof -
  let ?xs = "[65536, 65664, 65888, 66016, 66080, 66168, 66208 :: addr]"
  let ?M = "[(65536 :: addr, 104 :: size_t, STATUS_FREE), (65664, 200, STATUS_ALLOC),
     (65888, 104, STATUS_FREE), (66016, 40, STATUS_ALLOC), (66080, 104, STATUS_FREE),
     (66208, 130376, STATUS_ALLOC)]"
  have h: "heap_list (mem sample_heap_ties) 65536 ?xs"
    by (simp add: sample_heap_ties_def)
  have M: "?M = merge_free lp64 (blocks_of (mem sample_heap_ties) ?xs)"
    by (simp add: sample_heap_ties_def lp64_def TOT_SIZE_def ALIGN_def ALIGNMENT_def)
  have f: "fitting lp64 128 ?M =
      [(65536, 104, STATUS_FREE), (65888, 104, STATUS_FREE), (66080, 104, STATUS_FREE)]"
    by (simp add: fitting_def lp64_def TOT_SIZE_def ALIGN_def ALIGNMENT_def)
  have f0: "fitting lp64 1048576 ?M = []"
    by (simp add: fitting_def lp64_def TOT_SIZE_def ALIGN_def ALIGNMENT_def)
  have b: "best_candidate lp64 128 ?M = 65536"
    by (simp add: best_candidate_def f)
  have b0: "best_candidate lp64 1048576 ?M = 0"
    by (simp add: best_candidate_def f0)
  have v: "(if ?M = [] then 0 else fst (last ?M)) = 66208"
    "map fst ?M = [65536, 65664, 65888, 66016, 66080, 66208]"
    by simp_all
  have "\<exists>s'. find_best_fit lp64 sample_heap_ties 0 65536 128 =
             Some (best_candidate lp64 128 ?M, (if ?M = [] then 0 else fst (last ?M)), s') \<and>
           heap_list (mem s') 65536 (map fst ?M) \<and> blocks_of (mem s') (map fst ?M) = ?M \<and>
           no_adjacent_free (mem s') (map fst ?M)"
    using find_best_fit_smallest_first [OF h M, of 0 128] by blast
  then have 1: "\<exists>s'. find_best_fit lp64 sample_heap_ties 0 65536 128 = Some (65536, 66208, s') \<and>
      heap_list (mem s') 65536 [65536, 65664, 65888, 66016, 66080, 66208] \<and>
      blocks_of (mem s') [65536, 65664, 65888, 66016, 66080, 66208] = ?M \<and>
      no_adjacent_free (mem s') [65536, 65664, 65888, 66016, 66080, 66208]"
    by (simp only: b v)
  have "\<exists>s'. find_best_fit lp64 sample_heap_ties 0 65536 1048576 =
             Some (best_candidate lp64 1048576 ?M, (if ?M = [] then 0 else fst (last ?M)), s') \<and>
           blocks_of (mem s') (map fst ?M) = ?M"
    using find_best_fit_smallest_first [OF h M, of 0 1048576] by blast
  then have 2: "\<exists>s'. find_best_fit lp64 sample_heap_ties 0 65536 1048576 = Some (0, 66208, s') \<and>
      blocks_of (mem s') [65536, 65664, 65888, 66016, 66080, 66208] = ?M"
    by (simp only: b0 v)
  show ?thesis
    by (intro conjI h M 1 f 2 f0)
qed

section \<open>The preliminary cases of \<open>os_realloc\<close>\<close>

lemma os_free_mmap_loop_walk:
  "heap_list (mem s) cur (r1 @ block # r2) \<Longrightarrow> block \<notin> set r1 \<Longrightarrow>
   os_free_mmap_loop P s block prev cur =
     Some (if (if r1 = [] then prev else last r1) \<noteq> 0
           then set_next s (if r1 = [] then prev else last r1) (next_b (mem s block))
           else s\<lparr>mmap_start := next_b (mem s block)\<rparr>)"
proof (induction r1 arbitrary: prev cur)
  case Nil
  then have "cur = block" "block \<noteq> 0"
    by auto
  then show ?case
    by (simp add: os_free_mmap_loop_hit)
next
  case (Cons c r1)
  then have c: "cur = c" "c \<noteq> 0" "c \<noteq> block"
    and tl: "heap_list (mem s) (next_b (mem s c)) (r1 @ block # r2)" "block \<notin> set r1"
    by auto
  have "os_free_mmap_loop P s block prev cur =
      os_free_mmap_loop P s block c (next_b (mem s c))"
    using c by (simp add: os_free_mmap_loop_step)
  also have "\<dots> = Some (if (if r1 = [] then c else last r1) \<noteq> 0
           then set_next s (if r1 = [] then c else last r1) (next_b (mem s block))
           else s\<lparr>mmap_start := next_b (mem s block)\<rparr>)"
    using tl by (rule Cons.IH)
  finally show ?case
    by simp
qed

lemma os_free_mmap_unlinks:
  assumes hl: "heap_list (mem s) (mmap_start s) ms" and b: "get_block_ptr P ptr \<in> set ms"
  shows "\<exists>s'. os_free_mmap P s ptr = Some s' \<and>
           heap_list (mem s') (mmap_start s') (remove1 (get_block_ptr P ptr) ms) \<and>
           get_block_ptr P ptr \<notin> set (remove1 (get_block_ptr P ptr) ms)"
proof -
  let ?b = "get_block_ptr P ptr"
  obtain r1 r2 where ms: "ms = r1 @ ?b # r2" and nin: "?b \<notin> set r1"
    using b by (meson split_list_first)
  have d: "distinct ms"
    using hl by (rule heap_list_distinct)
  have nz: "0 \<notin> set ms"
    using hl by (rule heap_list_no_null)
  have rm: "remove1 ?b ms = r1 @ r2"
    using nin by (simp add: ms remove1_append)
  have out: "?b \<notin> set (remove1 ?b ms)"
    using d by (simp add: rm) (simp add: ms)
  have tl: "heap_list (mem s) (next_b (mem s ?b)) r2"
    using hl heap_list_suffix [of "mem s" "mmap_start s" r1 ?b r2] by (simp add: ms)
  let ?s' = "if (if r1 = [] then 0 else last r1) \<noteq> 0
           then set_next s (if r1 = [] then 0 else last r1) (next_b (mem s ?b))
           else s\<lparr>mmap_start := next_b (mem s ?b)\<rparr>"
  have run: "os_free_mmap P s ptr = Some ?s'"
    unfolding os_free_mmap_def using hl nin unfolding ms by (rule os_free_mmap_loop_walk)
  have "heap_list (mem ?s') (mmap_start ?s') (r1 @ r2)"
  proof (cases "r1 = []")
    case True
    then show ?thesis
      using tl by simp
  next
    case False
    then obtain bp p where r1: "r1 = bp @ [p]"
      by (metis append_butlast_last_id)
    have p0: "p \<noteq> 0"
      using nz by (auto simp: ms r1)
    have s': "?s' = set_next s p (next_b (mem s ?b))"
      using p0 by (simp add: r1)
    have pr: "p \<notin> set r2" "p \<notin> set bp"
      using d by (auto simp: ms r1)
    have old: "heap_list (mem s) (mmap_start s) (bp @ p # ?b # r2)"
      using hl by (simp add: ms r1)
    have "heap_list (mem (set_next s p (next_b (mem s ?b)))) (next_b (mem s ?b)) r2"
      using tl pr(1) by (simp add: heap_list_update)
    then have new: "heap_list (mem (set_next s p (next_b (mem s ?b)))) p (p # r2)"
      using p0 by simp
    have "heap_list (mem (set_next s p (next_b (mem s ?b)))) (mmap_start s) (bp @ p # r2)"
      using old new by (rule heap_list_replace_tail) (use pr(2) in auto)
    then have "heap_list (mem (set_next s p (next_b (mem s ?b))))
        (mmap_start (set_next s p (next_b (mem s ?b)))) (r1 @ r2)"
      by (simp add: r1 set_next_def)
    then show ?thesis
      by (simp only: s')
  qed
  then show ?thesis
    using run out by (simp only: rm) blast
qed


text \<open>
  Claim C7. \<open>realloc(null, size)\<close> is \<open>malloc(size)\<close>. \<open>realloc(ptr, 0)\<close> with a non-null
  \<open>ptr\<close> is \<open>free(ptr)\<close> and returns null, and the call does free the block: when the
  block of \<open>ptr\<close> is a block of the heap list and not MAPPED, it is afterwards a FREE block
  of the heap list whose successor, if any, is not FREE; when it is MAPPED and a block of
  the list of mapped blocks, that list is afterwards the old one without it.
  \<open>realloc(ptr, size)\<close> with a non-null \<open>ptr\<close> and a non-zero \<open>size\<close> whose block has status
  FREE returns null and changes nothing.
\<close>

theorem realloc_preliminary_cases:
  "os_realloc P s 0 sz = os_malloc P s sz \<and>
   (ptr \<noteq> 0 \<longrightarrow> os_realloc P s ptr 0 = map_option (\<lambda>s1. (0, s1)) (os_free P s ptr)) \<and>
   (ptr \<noteq> 0 \<and> status_b (mem s (get_block_ptr P ptr)) \<noteq> STATUS_MAPPED \<and>
    heap_list (mem s) (heap_start s) xs \<and> get_block_ptr P ptr \<in> set xs \<longrightarrow>
      (\<exists>s' ys. os_realloc P s ptr 0 = Some (0, s') \<and>
         heap_list (mem s') (heap_start s') ys \<and> get_block_ptr P ptr \<in> set ys \<and>
         set ys \<subseteq> set xs \<and>
         status_b (mem s' (get_block_ptr P ptr)) = STATUS_FREE \<and>
         (next_b (mem s' (get_block_ptr P ptr)) = 0 \<or>
          status_b (mem s' (next_b (mem s' (get_block_ptr P ptr)))) \<noteq> STATUS_FREE))) \<and>
   (ptr \<noteq> 0 \<and> status_b (mem s (get_block_ptr P ptr)) = STATUS_MAPPED \<and>
    heap_list (mem s) (mmap_start s) ms \<and> get_block_ptr P ptr \<in> set ms \<longrightarrow>
      (\<exists>s'. os_realloc P s ptr 0 = Some (0, s') \<and>
         heap_list (mem s') (mmap_start s') (remove1 (get_block_ptr P ptr) ms) \<and>
         get_block_ptr P ptr \<notin> set (remove1 (get_block_ptr P ptr) ms))) \<and>
   (ptr \<noteq> 0 \<and> sz \<noteq> 0 \<and> status_b (mem s (get_block_ptr P ptr)) = STATUS_FREE \<longrightarrow>
      os_realloc P s ptr sz = Some (0, s))"
proof (intro conjI impI)
  show "os_realloc P s 0 sz = os_malloc P s sz"
    by (simp add: os_realloc_def)
next
  assume "ptr \<noteq> 0"
  then show "os_realloc P s ptr 0 = map_option (\<lambda>s1. (0, s1)) (os_free P s ptr)"
    by (cases "os_free P s ptr") (simp_all add: os_realloc_def)
next
  let ?b = "get_block_ptr P ptr"
  assume a: "ptr \<noteq> 0 \<and> status_b (mem s ?b) \<noteq> STATUS_MAPPED \<and>
    heap_list (mem s) (heap_start s) xs \<and> ?b \<in> set xs"
  then obtain s' ys where f: "os_free P s ptr = Some s'"
    "heap_list (mem s') (heap_start s') ys" "?b \<in> set ys" "set ys \<subseteq> set xs"
    "status_b (mem s' ?b) = STATUS_FREE" "\<not> can_coalesce_one_block s' ?b"
    using os_free_heap_block [of s xs ptr P] by blast
  have 1: "os_realloc P s ptr 0 = Some (0, s')"
    using a f(1) by (simp add: os_realloc_def)
  have 2: "next_b (mem s' ?b) = 0 \<or> status_b (mem s' (next_b (mem s' ?b))) \<noteq> STATUS_FREE"
    using f(5,6) by (auto simp: can_coalesce_one_block_iff)
  show "\<exists>s' ys. os_realloc P s ptr 0 = Some (0, s') \<and>
         heap_list (mem s') (heap_start s') ys \<and> ?b \<in> set ys \<and> set ys \<subseteq> set xs \<and>
         status_b (mem s' ?b) = STATUS_FREE \<and>
         (next_b (mem s' ?b) = 0 \<or> status_b (mem s' (next_b (mem s' ?b))) \<noteq> STATUS_FREE)"
    using 1 f(2-5) 2 by blast
next
  let ?b = "get_block_ptr P ptr"
  assume a: "ptr \<noteq> 0 \<and> status_b (mem s ?b) = STATUS_MAPPED \<and>
    heap_list (mem s) (mmap_start s) ms \<and> ?b \<in> set ms"
  then obtain s' where f: "os_free_mmap P s ptr = Some s'"
    "heap_list (mem s') (mmap_start s') (remove1 ?b ms)" "?b \<notin> set (remove1 ?b ms)"
    using os_free_mmap_unlinks [of s ms P ptr] by blast
  have "os_realloc P s ptr 0 = Some (0, s')"
    using a f(1) by (simp add: os_realloc_def os_free_def)
  then show "\<exists>s'. os_realloc P s ptr 0 = Some (0, s') \<and>
         heap_list (mem s') (mmap_start s') (remove1 ?b ms) \<and> ?b \<notin> set (remove1 ?b ms)"
    using f(2,3) by blast
next
  assume "ptr \<noteq> 0 \<and> sz \<noteq> 0 \<and> status_b (mem s (get_block_ptr P ptr)) = STATUS_FREE"
  then show "os_realloc P s ptr sz = Some (0, s)"
    by (simp add: os_realloc_def Let_def)
qed

text \<open>
  The states that \<open>malloc(100)\<close>, \<open>malloc(200000)\<close> and \<open>free(malloc(100))\<close> leave on the
  fresh allocator of the concrete platform.
\<close>

lemma after_malloc_100:
  "\<exists>s1. os_malloc lp64 fresh 100 = Some (65560, s1) \<and> heap_start s1 = 65536 \<and>
     heap_list (mem s1) 65536 [65536, 65664] \<and> status_b (mem s1 65536) = STATUS_ALLOC"
  by (simp add: run_simps)

lemma after_malloc_200000:
  "\<exists>s1. os_malloc lp64 fresh 200000 = Some (139637976727576, s1) \<and>
     mmap_start s1 = 139637976727552 \<and>
     heap_list (mem s1) 139637976727552 [139637976727552] \<and>
     status_b (mem s1 139637976727552) = STATUS_MAPPED"
  by (simp add: run_simps)

lemma after_malloc_free:
  "\<exists>s1 s2. os_malloc lp64 fresh 100 = Some (65560, s1) \<and> os_free lp64 s1 65560 = Some s2 \<and>
     status_b (mem s2 65536) = STATUS_FREE"
  by (simp add: run_simps)

theorem realloc_preliminary_cases_witness:
  "os_realloc lp64 fresh 0 8 = os_malloc lp64 fresh 8 \<and>
   (\<exists>s1 s' ys. os_malloc lp64 fresh 100 = Some (65560, s1) \<and>
      ((65560 :: addr) \<noteq> 0 \<and> status_b (mem s1 (get_block_ptr lp64 65560)) \<noteq> STATUS_MAPPED \<and>
       heap_list (mem s1) (heap_start s1) [65536, 65664] \<and>
       get_block_ptr lp64 65560 \<in> set [65536, 65664]) \<and>
      status_b (mem s1 65536) = STATUS_ALLOC \<and>
      os_realloc lp64 s1 65560 0 = Some (0, s') \<and>
      os_free lp64 s1 65560 = Some s' \<and>
      heap_list (mem s') (heap_start s') ys \<and> 65536 \<in> set ys \<and>
      status_b (mem s' 65536) = STATUS_FREE) \<and>
   (\<exists>s1 s'. os_malloc lp64 fresh 200000 = Some (139637976727576, s1) \<and>
      ((139637976727576 :: addr) \<noteq> 0 \<and>
       status_b (mem s1 (get_block_ptr lp64 139637976727576)) = STATUS_MAPPED \<and>
       heap_list (mem s1) (mmap_start s1) [139637976727552] \<and>
       get_block_ptr lp64 139637976727576 \<in> set [139637976727552]) \<and>
      os_realloc lp64 s1 139637976727576 0 = Some (0, s') \<and> mmap_start s' = 0) \<and>
   (\<exists>s1 s2. os_malloc lp64 fresh 100 = Some (65560, s1) \<and> os_free lp64 s1 65560 = Some s2 \<and>
      ((65560 :: addr) \<noteq> 0 \<and> (50 :: size_t) \<noteq> 0 \<and>
       status_b (mem s2 (get_block_ptr lp64 65560)) = STATUS_FREE) \<and>
      os_realloc lp64 s2 65560 50 = Some (0, s2))"
proof -
  have g: "get_block_ptr lp64 65560 = 65536"
    "get_block_ptr lp64 139637976727576 = 139637976727552"
    by (simp_all add: get_block_ptr_def lp64_def)
  have 1: "os_realloc lp64 fresh 0 8 = os_malloc lp64 fresh 8"
    using realloc_preliminary_cases [of lp64 fresh 8 0 "[]" "[]"] by blast
  obtain s1 where a: "os_malloc lp64 fresh 100 = Some (65560, s1)" "heap_start s1 = 65536"
    "heap_list (mem s1) 65536 [65536, 65664]" "status_b (mem s1 65536) = STATUS_ALLOC"
    using after_malloc_100 by blast
  have ha: "(65560 :: addr) \<noteq> 0 \<and> status_b (mem s1 (get_block_ptr lp64 65560)) \<noteq> STATUS_MAPPED \<and>
       heap_list (mem s1) (heap_start s1) [65536, 65664] \<and>
       get_block_ptr lp64 65560 \<in> set [65536, 65664]"
    using a by (simp add: g)
  then obtain s' ys where ra: "os_realloc lp64 s1 65560 0 = Some (0, s')"
    "heap_list (mem s') (heap_start s') ys" "get_block_ptr lp64 65560 \<in> set ys"
    "status_b (mem s' (get_block_ptr lp64 65560)) = STATUS_FREE"
    using realloc_preliminary_cases [of lp64 s1 0 65560 "[65536, 65664]" "[]"] by blast
  have "os_realloc lp64 s1 65560 0 = map_option (\<lambda>s1. (0, s1)) (os_free lp64 s1 65560)"
    using realloc_preliminary_cases [of lp64 s1 0 65560 "[65536, 65664]" "[]"] by simp
  then have fa: "os_free lp64 s1 65560 = Some s'"
    using ra(1) by (cases "os_free lp64 s1 65560") simp_all
  have 2: "\<exists>s1 s' ys. os_malloc lp64 fresh 100 = Some (65560, s1) \<and>
      ((65560 :: addr) \<noteq> 0 \<and> status_b (mem s1 (get_block_ptr lp64 65560)) \<noteq> STATUS_MAPPED \<and>
       heap_list (mem s1) (heap_start s1) [65536, 65664] \<and>
       get_block_ptr lp64 65560 \<in> set [65536, 65664]) \<and>
      status_b (mem s1 65536) = STATUS_ALLOC \<and>
      os_realloc lp64 s1 65560 0 = Some (0, s') \<and>
      os_free lp64 s1 65560 = Some s' \<and>
      heap_list (mem s') (heap_start s') ys \<and> 65536 \<in> set ys \<and>
      status_b (mem s' 65536) = STATUS_FREE"
    using a(1,4) ha ra fa unfolding g by blast
  obtain t1 where b: "os_malloc lp64 fresh 200000 = Some (139637976727576, t1)"
    "mmap_start t1 = 139637976727552"
    "heap_list (mem t1) 139637976727552 [139637976727552]"
    "status_b (mem t1 139637976727552) = STATUS_MAPPED"
    using after_malloc_200000 by blast
  have hb: "(139637976727576 :: addr) \<noteq> 0 \<and>
       status_b (mem t1 (get_block_ptr lp64 139637976727576)) = STATUS_MAPPED \<and>
       heap_list (mem t1) (mmap_start t1) [139637976727552] \<and>
       get_block_ptr lp64 139637976727576 \<in> set [139637976727552]"
    using b by (simp add: g)
  then obtain t' where rb: "os_realloc lp64 t1 139637976727576 0 = Some (0, t')"
    "heap_list (mem t') (mmap_start t')
       (remove1 (get_block_ptr lp64 139637976727576) [139637976727552])"
    using realloc_preliminary_cases
      [of lp64 t1 0 139637976727576 "[]" "[139637976727552]"] by blast
  have "mmap_start t' = 0"
    using rb(2) by (simp add: g)
  then have 3: "\<exists>s1 s'. os_malloc lp64 fresh 200000 = Some (139637976727576, s1) \<and>
      ((139637976727576 :: addr) \<noteq> 0 \<and>
       status_b (mem s1 (get_block_ptr lp64 139637976727576)) = STATUS_MAPPED \<and>
       heap_list (mem s1) (mmap_start s1) [139637976727552] \<and>
       get_block_ptr lp64 139637976727576 \<in> set [139637976727552]) \<and>
      os_realloc lp64 s1 139637976727576 0 = Some (0, s') \<and> mmap_start s' = 0"
    using b(1) hb rb(1) by blast
  obtain u1 u2 where c: "os_malloc lp64 fresh 100 = Some (65560, u1)"
    "os_free lp64 u1 65560 = Some u2" "status_b (mem u2 65536) = STATUS_FREE"
    using after_malloc_free by blast
  have hc: "(65560 :: addr) \<noteq> 0 \<and> (50 :: size_t) \<noteq> 0 \<and>
       status_b (mem u2 (get_block_ptr lp64 65560)) = STATUS_FREE"
    using c(3) by (simp add: g)
  then have "os_realloc lp64 u2 65560 50 = Some (0, u2)"
    using realloc_preliminary_cases [of lp64 u2 50 65560 "[]" "[]"] by blast
  then have 4: "\<exists>s1 s2. os_malloc lp64 fresh 100 = Some (65560, s1) \<and>
      os_free lp64 s1 65560 = Some s2 \<and>
      ((65560 :: addr) \<noteq> 0 \<and> (50 :: size_t) \<noteq> 0 \<and>
       status_b (mem s2 (get_block_ptr lp64 65560)) = STATUS_FREE) \<and>
      os_realloc lp64 s2 65560 50 = Some (0, s2)"
    using c(1,2) hc by blast
  show ?thesis
    by (intro conjI 1 2 3 4)
qed

end
